theory Spec2Isabelle
  imports Main "HOL-Library.Word"
begin

unbundle bit_operations_syntax

section \<open>The cr50 I2C TPM driver (src/drivers/i2c/tpm/cr50.c)\<close>

subsection \<open>Declarations of tpm.h\<close>

type_synonym byte = "8 word"

text \<open>
  The header tpm.h is not among the sources. Its register macros, bit masks and sizes are
  taken as a parameter: every function of the driver receives the record \<open>K\<close> below, and
  every theorem holds for whatever values the header gives them.
\<close>

record tpm_h =
  TPM_ACCESS :: "int \<Rightarrow> byte"
  TPM_STS :: "int \<Rightarrow> byte"
  TPM_DATA_FIFO :: "int \<Rightarrow> byte"
  TPM_DID_VID :: "int \<Rightarrow> byte"
  TPM_ACCESS_VALID :: byte
  TPM_ACCESS_ACTIVE_LOCALITY :: byte
  TPM_ACCESS_REQUEST_PENDING :: byte
  TPM_ACCESS_REQUEST_USE :: byte
  TPM_STS_VALID :: byte
  TPM_STS_COMMAND_READY :: byte
  TPM_STS_GO :: byte
  TPM_STS_DATA_AVAIL :: byte
  TPM_STS_DATA_EXPECT :: byte
  TPM_HEADER_SIZE :: nat
  TPM_RSP_SIZE_BYTE :: nat
  TPM_TIMEOUT :: nat

text \<open>
  The usual values of the TIS interface, for running the driver on concrete inputs.
\<close>

definition tis_h :: tpm_h where
  "tis_h = \<lparr>
     TPM_ACCESS = (\<lambda>l. word_of_int (push_bit 4 l)),
     TPM_STS = (\<lambda>l. word_of_int (1 OR push_bit 4 l)),
     TPM_DATA_FIFO = (\<lambda>l. word_of_int (5 OR push_bit 4 l)),
     TPM_DID_VID = (\<lambda>l. word_of_int (6 OR push_bit 4 l)),
     TPM_ACCESS_VALID = 0x80,
     TPM_ACCESS_ACTIVE_LOCALITY = 0x20,
     TPM_ACCESS_REQUEST_PENDING = 0x04,
     TPM_ACCESS_REQUEST_USE = 0x02,
     TPM_STS_VALID = 0x80,
     TPM_STS_COMMAND_READY = 0x40,
     TPM_STS_GO = 0x20,
     TPM_STS_DATA_AVAIL = 0x10,
     TPM_STS_DATA_EXPECT = 0x08,
     TPM_HEADER_SIZE = 10,
     TPM_RSP_SIZE_BYTE = 2,
     TPM_TIMEOUT = 1 \<rparr>"

text \<open>
  Modelled from the spec: struct tpm_chip and its member vendor are declared in tpm.h.
  The record holds the members cr50.c touches (the chip context of the spec: the claimed
  locality, the vendor bindings for status, send, recv and cancel, the open flag).
\<close>

datatype vendor_fn = Unbound | Cr50_status | Cr50_recv | Cr50_send | Cr50_ready

record tpm_chip =
  is_open :: int
  locality :: int
  irq :: int
  req_complete_mask :: byte
  req_complete_val :: byte
  req_canceled :: byte
  v_status :: vendor_fn
  v_recv :: vendor_fn
  v_send :: vendor_fn
  v_cancel :: vendor_fn

subsection \<open>The driver's constants and its device handle\<close>

definition CR50_MAX_BUFSIZE :: nat where
  "CR50_MAX_BUFSIZE = 63"

definition CR50_TIMEOUT_LONG_MS :: nat where
  "CR50_TIMEOUT_LONG_MS = 2000"

definition CR50_TIMEOUT_SHORT_MS :: nat where
  "CR50_TIMEOUT_SHORT_MS = 2"

definition CR50_DID_VID :: "32 word" where
  "CR50_DID_VID = 0x00281ae0"

text \<open>struct tpm_inf_dev: the bus, the chip address and the scratch buffer of 64 bytes.\<close>

record tpm_inf_dev =
  dev_bus :: nat
  dev_addr :: nat
  dev_buf :: "byte list"

subsection \<open>The platform: bus, delay, stopwatch, console\<close>

text \<open>
  What the bus answers to one raw transfer: whether it succeeded, the bytes the chip
  supplies to a read, and the milliseconds the transfer took.
\<close>

datatype reply = Reply (r_ok: bool) (r_data: "byte list") (r_dur: nat)

text \<open>What the driver does to the platform, in order.\<close>

datatype event =
    I2C_write "byte list" bool
  | I2C_read nat "byte list option"
  | Mdelay nat
  | Printk string

text \<open>
  The state the driver runs in: its global g_tpm_dev, the monotonic clock in milliseconds,
  the answers of the bus to the successive raw transfers (the transfer number \<open>pos\<close> gets
  \<open>replies pos\<close>), and the trace of what was done so far.
\<close>

record world =
  g_tpm_dev :: tpm_inf_dev
  clock :: nat
  replies :: "nat \<Rightarrow> reply"
  pos :: nat
  trace :: "event list"

text \<open>
  Modelled from the spec: i2c_write_raw of device/i2c.h, the collaborator
  \<open>bus_write(bus, addr, buf, len) -> Result\<close>. One raw write transfer of the bytes given;
  the bus decides whether it succeeds. The result is True on success (0 in C).
\<close>

definition i2c_write_raw :: "nat \<Rightarrow> nat \<Rightarrow> byte list \<Rightarrow> world \<Rightarrow> bool \<times> world" where
  "i2c_write_raw b a bs s =
     (let r = replies s (pos s)
      in (r_ok r, s\<lparr>clock := clock s + r_dur r, pos := pos s + 1,
                     trace := trace s @ [I2C_write bs (r_ok r)]\<rparr>))"

text \<open>
  Modelled from the spec: i2c_read_raw of device/i2c.h, the collaborator
  \<open>bus_read(bus, addr, buf, len) -> Result\<close>. One raw read transfer of \<open>len\<close> bytes; on
  success the chip has supplied exactly \<open>len\<close> bytes (a shorter answer of the bus is
  filled with zero bytes).
\<close>

definition i2c_read_raw :: "nat \<Rightarrow> nat \<Rightarrow> nat \<Rightarrow> world \<Rightarrow> byte list option \<times> world" where
  "i2c_read_raw b a len s =
     (let r = replies s (pos s);
          res = (if r_ok r then Some (take len (r_data r @ replicate len 0)) else None)
      in (res, s\<lparr>clock := clock s + r_dur r, pos := pos s + 1,
                   trace := trace s @ [I2C_read len res]\<rparr>))"

text \<open>
  Modelled from the spec: mdelay of delay.h, the collaborator \<open>delay_ms(n)\<close>: a synchronous
  count-down of \<open>n\<close> milliseconds.
\<close>

definition mdelay :: "nat \<Rightarrow> world \<Rightarrow> world" where
  "mdelay n s = s\<lparr>clock := clock s + n, trace := trace s @ [Mdelay n]\<rparr>"

text \<open>
  Modelled from the spec: the monotonic stopwatch of timer.h, with \<open>expired()\<close>. A stopwatch
  is the time at which it expires.
\<close>

definition stopwatch_init_msecs_expire :: "nat \<Rightarrow> world \<Rightarrow> nat" where
  "stopwatch_init_msecs_expire ms s = clock s + ms"

definition stopwatch_expired :: "nat \<Rightarrow> world \<Rightarrow> bool" where
  "stopwatch_expired sw s = (sw \<le> clock s)"

text \<open>
  Modelled from the spec: printk of console/console.h, the logging collaborator. A
  message is recorded as its text, with the function name in place of \<open>%s\<close> for
  \<open>__func__\<close> and without the newline; the values printed for the other format
  arguments are left out.
\<close>

definition printk :: "string \<Rightarrow> world \<Rightarrow> world" where
  "printk m s = s\<lparr>trace := trace s @ [Printk m]\<rparr>"

text \<open>
  Modelled from the spec: read_le16 and read_be32 of commonlib/endian.h, which decode the
  burst count (little-endian 16-bit) and the total response size (big-endian 32-bit). The
  driver passes at least two and four bytes; bytes that are not there count as zero.
\<close>

definition read_le16 :: "byte list \<Rightarrow> nat" where
  "read_le16 bs = (let p = bs @ replicate 2 0 in unat (p ! 0) + 256 * unat (p ! 1))"

definition read_be32 :: "byte list \<Rightarrow> nat" where
  "read_be32 bs =
     (let p = bs @ replicate 4 0
      in 16777216 * unat (p ! 0) + 65536 * unat (p ! 1) + 256 * unat (p ! 2) + unat (p ! 3))"

subsection \<open>Register transport\<close>

text \<open>
  iic_tpm_read: send the register address byte, wait the short delay, read \<open>len\<close> bytes.
  The result is the bytes read, or None where the C function returns -1.
\<close>

definition iic_tpm_read :: "byte \<Rightarrow> nat \<Rightarrow> world \<Rightarrow> byte list option \<times> world" where
  "iic_tpm_read a len s =
     (let tpm_dev = g_tpm_dev s in
      if dev_addr tpm_dev = 0 then (None, s)
      else
        case i2c_write_raw (dev_bus tpm_dev) (dev_addr tpm_dev) [a] s of
          (ok, s1) \<Rightarrow>
            if \<not> ok then (None, printk ''iic_tpm_read: Address write failed'' s1)
            else
              (case i2c_read_raw (dev_bus tpm_dev) (dev_addr tpm_dev) len
                      (mdelay CR50_TIMEOUT_SHORT_MS s1) of
                 (None, s2) \<Rightarrow> (None, printk ''iic_tpm_read: Read response failed'' s2)
               | (Some bs, s2) \<Rightarrow> (Some bs, s2)))"

text \<open>
  iic_tpm_write: the register address is put in front of the data in the scratch buffer
  of the device handle and both go out in one raw write; the length is that of the data
  given. The result is True where the C function returns 0.
\<close>

definition iic_tpm_write :: "byte \<Rightarrow> byte list \<Rightarrow> world \<Rightarrow> bool \<times> world" where
  "iic_tpm_write a buffer s =
     (let tpm_dev = g_tpm_dev s; len = length buffer in
      if dev_addr tpm_dev = 0 then (False, s)
      else if len > CR50_MAX_BUFSIZE then (False, s)
      else
        let buf' = (a # buffer) @ drop (len + 1) (dev_buf tpm_dev);
            s0 = s\<lparr>g_tpm_dev := tpm_dev\<lparr>dev_buf := buf'\<rparr>\<rparr>
        in case i2c_write_raw (dev_bus tpm_dev) (dev_addr tpm_dev) (take (len + 1) buf') s0 of
             (ok, s1) \<Rightarrow>
               if \<not> ok then (False, printk ''iic_tpm_write: Error writing to TPM'' s1)
               else (True, mdelay CR50_TIMEOUT_SHORT_MS s1))"

subsection \<open>Locality\<close>

text \<open>
  check_locality: the result is \<open>loc\<close> when the access register shows the locality active
  and valid, and -1 otherwise; the chip is returned with the locality recorded.
\<close>

definition check_locality :: "tpm_h \<Rightarrow> tpm_chip \<Rightarrow> int \<Rightarrow> world \<Rightarrow> (int \<times> tpm_chip) \<times> world" where
  "check_locality K chip loc s =
     (case iic_tpm_read (TPM_ACCESS K loc) 1 s of
        (None, s1) \<Rightarrow> ((-1, chip), s1)
      | (Some bs, s1) \<Rightarrow>
          let buf = hd bs in
          if buf AND (TPM_ACCESS_ACTIVE_LOCALITY K OR TPM_ACCESS_VALID K) =
               (TPM_ACCESS_ACTIVE_LOCALITY K OR TPM_ACCESS_VALID K)
          then ((loc, chip\<lparr>locality := loc\<rparr>), s1)
          else ((-1, chip), s1))"

definition release_locality :: "tpm_h \<Rightarrow> tpm_chip \<Rightarrow> int \<Rightarrow> bool \<Rightarrow> world \<Rightarrow> world" where
  "release_locality K chip loc force s =
     (case iic_tpm_read (TPM_ACCESS K loc) 1 s of
        (None, s1) \<Rightarrow> s1
      | (Some bs, s1) \<Rightarrow>
          let buf = hd bs in
          if force \<or> buf AND (TPM_ACCESS_REQUEST_PENDING K OR TPM_ACCESS_VALID K) =
                        (TPM_ACCESS_REQUEST_PENDING K OR TPM_ACCESS_VALID K)
          then snd (iic_tpm_write (TPM_ACCESS K loc) [TPM_ACCESS_ACTIVE_LOCALITY K] s1)
          else s1)"

text \<open>
  The loop of request_locality: \<open>timeout\<close> counts down from 2000, with a delay of
  TPM_TIMEOUT milliseconds after each check that does not find the locality.
\<close>

fun request_locality_loop ::
  "tpm_h \<Rightarrow> tpm_chip \<Rightarrow> int \<Rightarrow> nat \<Rightarrow> world \<Rightarrow> (int \<times> tpm_chip) \<times> world" where
  "request_locality_loop K chip loc timeout s =
     (if timeout = 0 then ((-1, chip), s)
      else
        case check_locality K chip loc s of
          ((r, chip1), s1) \<Rightarrow>
            if r \<ge> 0 then ((loc, chip1), s1)
            else request_locality_loop K chip1 loc (timeout - 1) (mdelay (TPM_TIMEOUT K) s1))"

declare request_locality_loop.simps [simp del]

definition request_locality :: "tpm_h \<Rightarrow> tpm_chip \<Rightarrow> int \<Rightarrow> world \<Rightarrow> (int \<times> tpm_chip) \<times> world" where
  "request_locality K chip loc s =
     (case check_locality K chip loc s of
        ((r, chip1), s1) \<Rightarrow>
          if r \<ge> 0 then ((loc, chip1), s1)
          else request_locality_loop K chip1 loc (2 * 1000)
                 (snd (iic_tpm_write (TPM_ACCESS K loc) [TPM_ACCESS_REQUEST_USE K] s1)))"

subsection \<open>Time only moves forward\<close>

lemma i2c_write_raw_clock: "i2c_write_raw b a bs s = (r, s') \<Longrightarrow> clock s \<le> clock s'"
  by (auto simp: i2c_write_raw_def Let_def)

lemma i2c_read_raw_clock: "i2c_read_raw b a n s = (r, s') \<Longrightarrow> clock s \<le> clock s'"
  by (auto simp: i2c_read_raw_def Let_def)

lemma mdelay_clock [simp]: "clock (mdelay n s) = clock s + n"
  by (simp add: mdelay_def)

lemma printk_clock [simp]: "clock (printk m s) = clock s"
  by (simp add: printk_def)

lemma iic_tpm_read_clock: "iic_tpm_read a n s = (r, s') \<Longrightarrow> clock s \<le> clock s'"
  by (auto simp: iic_tpm_read_def Let_def split: if_splits prod.splits option.splits
           dest!: i2c_write_raw_clock i2c_read_raw_clock)

lemma iic_tpm_write_clock: "iic_tpm_write a d s = (r, s') \<Longrightarrow> clock s \<le> clock s'"
  by (auto simp: iic_tpm_write_def Let_def split: if_splits prod.splits
           dest!: i2c_write_raw_clock)

subsection \<open>Status\<close>

definition cr50_tis_i2c_status :: "tpm_h \<Rightarrow> tpm_chip \<Rightarrow> world \<Rightarrow> byte \<times> world" where
  "cr50_tis_i2c_status K chip s =
     (case iic_tpm_read (TPM_STS K (locality chip)) 4 s of
        (None, s1) \<Rightarrow> (0, printk ''cr50_tis_i2c_status: Failed to read status'' s1)
      | (Some buf, s1) \<Rightarrow> (buf ! 0, s1))"

definition cr50_tis_i2c_ready :: "tpm_h \<Rightarrow> tpm_chip \<Rightarrow> world \<Rightarrow> world" where
  "cr50_tis_i2c_ready K chip s =
     mdelay CR50_TIMEOUT_SHORT_MS
       (snd (iic_tpm_write (TPM_STS K (locality chip)) [TPM_STS_COMMAND_READY K, 0, 0, 0] s))"

text \<open>
  The loop of cr50_wait_burst_status, for the stopwatch \<open>sw\<close>. The result is the status
  byte and the burst count of the read that qualified, or None where the C function
  returns -1.
\<close>

function cr50_wait_burst_status_loop ::
  "tpm_h \<Rightarrow> tpm_chip \<Rightarrow> byte \<Rightarrow> nat \<Rightarrow> world \<Rightarrow> (byte \<times> nat) option \<times> world" where
  "cr50_wait_burst_status_loop K chip msk sw s =
     (if stopwatch_expired sw s
      then (None, printk ''cr50_wait_burst_status: Timeout reading burst and status'' s)
      else
        case iic_tpm_read (TPM_STS K (locality chip)) 4 s of
          (None, s1) \<Rightarrow>
            cr50_wait_burst_status_loop K chip msk sw
              (mdelay CR50_TIMEOUT_SHORT_MS (printk ''cr50_wait_burst_status: Read failed'' s1))
        | (Some buf, s1) \<Rightarrow>
            let status = buf ! 0; burst = read_le16 (drop 1 buf) in
            if status AND msk = msk \<and> burst > 0 \<and> burst \<le> CR50_MAX_BUFSIZE
            then (Some (status, burst), s1)
            else cr50_wait_burst_status_loop K chip msk sw (mdelay CR50_TIMEOUT_SHORT_MS s1))"
  by pat_completeness auto

termination
  by (relation "measure (\<lambda>(K, chip, msk, sw, s). sw - clock s)")
     (auto simp: stopwatch_expired_def CR50_TIMEOUT_SHORT_MS_def
           dest!: iic_tpm_read_clock [OF sym])

declare cr50_wait_burst_status_loop.simps [simp del]

definition cr50_wait_burst_status ::
  "tpm_h \<Rightarrow> tpm_chip \<Rightarrow> byte \<Rightarrow> world \<Rightarrow> (byte \<times> nat) option \<times> world" where
  "cr50_wait_burst_status K chip msk s =
     cr50_wait_burst_status_loop K chip msk
       (stopwatch_init_msecs_expire CR50_TIMEOUT_LONG_MS s) s"

lemma wait_loop_Some:
  "cr50_wait_burst_status_loop K chip msk sw s = (Some (st, b), s') \<Longrightarrow>
     st AND msk = msk \<and> 0 < b \<and> b \<le> CR50_MAX_BUFSIZE"
proof (induction K chip msk sw s rule: cr50_wait_burst_status_loop.induct)
  case (1 K chip msk sw s)
  show ?case
  proof (cases "stopwatch_expired sw s")
    case True
    with "1.prems" show ?thesis
      by (simp add: cr50_wait_burst_status_loop.simps [of K chip msk sw s])
  next
    case False
    obtain r s1 where rd: "iic_tpm_read (TPM_STS K (locality chip)) 4 s = (r, s1)"
      by force
    show ?thesis
    proof (cases r)
      case None
      with False rd "1.prems" "1.IH"(1) [OF False rd [symmetric]] show ?thesis
        by (simp add: cr50_wait_burst_status_loop.simps [of K chip msk sw s])
    next
      case (Some buf)
      with False rd "1.prems" "1.IH"(2) [OF False rd [symmetric]] show ?thesis
        by (simp add: cr50_wait_burst_status_loop.simps [of K chip msk sw s] Let_def
                 split: if_splits)
    qed
  qed
qed

lemma wait_Some:
  "cr50_wait_burst_status K chip msk s = (Some (st, b), s') \<Longrightarrow>
     st AND msk = msk \<and> 0 < b \<and> b \<le> CR50_MAX_BUFSIZE"
  unfolding cr50_wait_burst_status_def by (rule wait_loop_Some)

subsection \<open>Receive\<close>

text \<open>
  The caller's buffer is a list of bytes; a read of the bytes \<open>d\<close> to \<open>buf + off\<close> replaces
  the bytes from \<open>off\<close> on (and runs past the end of the list where the C code writes past
  the end of the buffer).
\<close>

definition write_at :: "byte list \<Rightarrow> nat \<Rightarrow> byte list \<Rightarrow> byte list" where
  "write_at buf off d = take off buf @ d @ drop (off + length d) buf"

text \<open>
  The value of a size_t as the int the function returns: the 32-bit two's complement
  reading (int has 32 bits, and the sizes here stay below \<open>2 ^ 32\<close>).
\<close>

definition int_of_size_t :: "nat \<Rightarrow> int" where
  "int_of_size_t n = sint (word_of_nat n :: 32 word)"

text \<open>
  The loop of cr50_tis_i2c_recv that reads the rest of the data. The result is whether
  the loop ended without a \<open>goto out\<close>, the buffer and \<open>current\<close>.
\<close>

function cr50_tis_i2c_recv_loop ::
  "tpm_h \<Rightarrow> tpm_chip \<Rightarrow> byte list \<Rightarrow> nat \<Rightarrow> nat \<Rightarrow> world \<Rightarrow> (bool \<times> byte list \<times> nat) \<times> world" where
  "cr50_tis_i2c_recv_loop K chip buf current expected s =
     (if current < expected then
        case cr50_wait_burst_status K chip (TPM_STS_VALID K) s of
          (None, s1) \<Rightarrow> ((False, buf, current), s1)
        | (Some (status, burstcnt), s1) \<Rightarrow>
            if status AND TPM_STS_DATA_AVAIL K = 0
            then ((False, buf, current), printk ''cr50_tis_i2c_recv: Data not available'' s1)
            else
              let len = min burstcnt (expected - current) in
              (case iic_tpm_read (TPM_DATA_FIFO K (locality chip)) len s1 of
                 (None, s2) \<Rightarrow>
                   ((False, buf, current), printk ''cr50_tis_i2c_recv: Read failed'' s2)
               | (Some d, s2) \<Rightarrow>
                   cr50_tis_i2c_recv_loop K chip (write_at buf current d) (current + len)
                     expected s2)
      else ((True, buf, current), s))"
  by pat_completeness auto

termination
  by (relation "measure (\<lambda>(K, chip, buf, current, expected, s). expected - current)")
     (auto dest!: wait_Some [OF sym])

declare cr50_tis_i2c_recv_loop.simps [simp del]

definition cr50_tis_i2c_recv ::
  "tpm_h \<Rightarrow> tpm_chip \<Rightarrow> byte list \<Rightarrow> nat \<Rightarrow> world \<Rightarrow> (int \<times> byte list) \<times> world" where
  "cr50_tis_i2c_recv K chip buf buf_len s =
     (let addr = TPM_DATA_FIFO K (locality chip) in
      if buf_len < TPM_HEADER_SIZE K then ((-1, buf), s)
      else
        case cr50_wait_burst_status K chip (TPM_STS_VALID K) s of
          (None, s1) \<Rightarrow> ((-1, buf), s1)
        | (Some (status, burstcnt), s1) \<Rightarrow>
            if status AND TPM_STS_DATA_AVAIL K = 0
            then ((-1, buf), printk ''cr50_tis_i2c_recv: First chunk not available'' s1)
            else
              (case iic_tpm_read addr burstcnt s1 of
                 (None, s2) \<Rightarrow> ((-1, buf), printk ''cr50_tis_i2c_recv: Read failed'' s2)
               | (Some d, s2) \<Rightarrow>
                   let buf1 = write_at buf 0 d;
                       expected = read_be32 (drop (TPM_RSP_SIZE_BYTE K) buf1)
                   in
                   if expected > buf_len
                   then ((-1, buf1), printk ''cr50_tis_i2c_recv: Too much data'' s2)
                   else
                     (case cr50_tis_i2c_recv_loop K chip buf1 burstcnt expected s2 of
                        ((ok, buf2, current), s3) \<Rightarrow>
                          if \<not> ok then ((-1, buf2), s3)
                          else
                            (case cr50_wait_burst_status K chip (TPM_STS_VALID K) s3 of
                               (None, s4) \<Rightarrow> ((-1, buf2), s4)
                             | (Some (status2, burstcnt2), s4) \<Rightarrow>
                                 if status2 AND TPM_STS_DATA_AVAIL K \<noteq> 0
                                 then ((-1, buf2),
                                       printk ''cr50_tis_i2c_recv: Data still available'' s4)
                                 else ((int_of_size_t current, buf2), s4)))))"

subsection \<open>Send\<close>

lemma cr50_tis_i2c_status_clock:
  "cr50_tis_i2c_status K chip s = (st, s') \<Longrightarrow> clock s \<le> clock s'"
  by (auto simp: cr50_tis_i2c_status_def split: prod.splits option.splits
           dest!: iic_tpm_read_clock)

lemma cr50_tis_i2c_ready_clock:
  "clock s + CR50_TIMEOUT_SHORT_MS \<le> clock (cr50_tis_i2c_ready K chip s)"
  using iic_tpm_write_clock [OF surjective_pairing]
  by (simp add: cr50_tis_i2c_ready_def)

text \<open>
  The first loop of cr50_tis_i2c_send, for the stopwatch \<open>sw\<close>: wait until the TPM is
  ready for a command. The result is False where the C function returns -1 from inside
  the loop.
\<close>

function cr50_tis_i2c_send_ready_loop ::
  "tpm_h \<Rightarrow> tpm_chip \<Rightarrow> nat \<Rightarrow> world \<Rightarrow> bool \<times> world" where
  "cr50_tis_i2c_send_ready_loop K chip sw s =
     (case cr50_tis_i2c_status K chip s of
        (st, s1) \<Rightarrow>
          if st AND TPM_STS_COMMAND_READY K \<noteq> 0 then (True, s1)
          else if stopwatch_expired sw s1
          then (False, printk ''cr50_tis_i2c_send: Command ready timeout'' s1)
          else cr50_tis_i2c_send_ready_loop K chip sw (cr50_tis_i2c_ready K chip s1))"
  by pat_completeness auto

termination
proof (relation "measure (\<lambda>(K, chip, sw, s). sw - clock s)", goal_cases)
  case 1
  show ?case by simp
next
  case (2 K chip sw s st s1)
  have "clock s \<le> clock s1"
    using 2 by (auto dest!: cr50_tis_i2c_status_clock [OF sym])
  moreover have "clock s1 < sw"
    using 2 by (simp add: stopwatch_expired_def)
  moreover have "clock s1 + CR50_TIMEOUT_SHORT_MS \<le> clock (cr50_tis_i2c_ready K chip s1)"
    by (rule cr50_tis_i2c_ready_clock)
  ultimately show ?case
    by (simp add: CR50_TIMEOUT_SHORT_MS_def)
qed

declare cr50_tis_i2c_send_ready_loop.simps [simp del]

text \<open>
  The second loop of cr50_tis_i2c_send: write the command in pieces. Nothing bounds the
  number of its rounds (a round that finds the burst count 1 sends nothing), so the
  result is an option: None when the loop does not end. Otherwise it is whether the loop
  ended without a \<open>goto out\<close>, and \<open>sent\<close>.
\<close>

partial_function (option) cr50_tis_i2c_send_loop ::
  "tpm_h \<Rightarrow> tpm_chip \<Rightarrow> byte list \<Rightarrow> nat \<Rightarrow> nat \<Rightarrow> world \<Rightarrow> ((bool \<times> nat) \<times> world) option" where
  "cr50_tis_i2c_send_loop K chip buf sent len s =
     (if len > 0 then
        case cr50_wait_burst_status K chip (TPM_STS_VALID K) s of
          (None, s1) \<Rightarrow> Some ((False, sent), s1)
        | (Some (status, burstcnt), s1) \<Rightarrow>
            if sent > 0 \<and> status AND TPM_STS_DATA_EXPECT K = 0
            then Some ((False, sent), printk ''cr50_tis_i2c_send: Data not expected'' s1)
            else
              let limit = min (burstcnt - 1) len in
              (case iic_tpm_write (TPM_DATA_FIFO K (locality chip))
                      (take limit (drop sent buf)) s1 of
                 (ok, s2) \<Rightarrow>
                   if \<not> ok
                   then Some ((False, sent), printk ''cr50_tis_i2c_send: Write failed'' s2)
                   else cr50_tis_i2c_send_loop K chip buf (sent + limit) (len - limit) s2)
      else Some ((True, sent), s))"

declare cr50_tis_i2c_send_loop.simps [code]

text \<open>The label \<open>out\<close> of cr50_tis_i2c_send: abort the transaction if it is still pending.\<close>

definition cr50_tis_i2c_send_out :: "tpm_h \<Rightarrow> tpm_chip \<Rightarrow> world \<Rightarrow> int \<times> world" where
  "cr50_tis_i2c_send_out K chip s =
     (case cr50_tis_i2c_status K chip s of
        (st, s1) \<Rightarrow>
          if st AND TPM_STS_COMMAND_READY K \<noteq> 0 then (-1, cr50_tis_i2c_ready K chip s1)
          else (-1, s1))"

text \<open>
  cr50_tis_i2c_send, for the command \<open>buf\<close> of \<open>len\<close> bytes (the caller provides at least
  \<open>len\<close> bytes). None when the function does not return.
\<close>

definition cr50_tis_i2c_send ::
  "tpm_h \<Rightarrow> tpm_chip \<Rightarrow> byte list \<Rightarrow> nat \<Rightarrow> world \<Rightarrow> (int \<times> world) option" where
  "cr50_tis_i2c_send K chip buf len s =
     (case cr50_tis_i2c_send_ready_loop K chip
             (stopwatch_init_msecs_expire CR50_TIMEOUT_LONG_MS s) s of
        (ready, s1) \<Rightarrow>
          if \<not> ready then Some (-1, s1)
          else
            (case cr50_tis_i2c_send_loop K chip buf 0 len s1 of
               None \<Rightarrow> None
             | Some ((ok, sent), s2) \<Rightarrow>
                 if \<not> ok then Some (cr50_tis_i2c_send_out K chip s2)
                 else
                   (case cr50_wait_burst_status K chip (TPM_STS_VALID K) s2 of
                      (None, s3) \<Rightarrow> Some (cr50_tis_i2c_send_out K chip s3)
                    | (Some (status, burstcnt), s3) \<Rightarrow>
                        if status AND TPM_STS_DATA_EXPECT K \<noteq> 0
                        then Some (cr50_tis_i2c_send_out K chip
                                     (printk ''cr50_tis_i2c_send: Data still expected'' s3))
                        else
                          (case iic_tpm_write (TPM_STS K (locality chip))
                                  [TPM_STS_GO K, 0, 0, 0] s3 of
                             (ok, s4) \<Rightarrow>
                               if \<not> ok
                               then Some (cr50_tis_i2c_send_out K chip
                                            (printk ''cr50_tis_i2c_send: Start command failed''
                                               s4))
                               else Some (int_of_size_t sent, s4)))))"

subsection \<open>Initialisation\<close>

definition cr50_vendor_init :: "tpm_h \<Rightarrow> tpm_chip \<Rightarrow> tpm_chip" where
  "cr50_vendor_init K chip =
     chip\<lparr>locality := 0, irq := 0,
          req_complete_mask := TPM_STS_DATA_AVAIL K OR TPM_STS_VALID K,
          req_complete_val := TPM_STS_DATA_AVAIL K OR TPM_STS_VALID K,
          req_canceled := TPM_STS_COMMAND_READY K,
          v_status := Cr50_status, v_recv := Cr50_recv, v_send := Cr50_send,
          v_cancel := Cr50_ready\<rparr>"

text \<open>
  The four bytes read into the uint32_t \<open>vendor\<close> through a byte pointer: on the
  little-endian x86 the first byte is the lowest.
\<close>

definition vendor_of_bytes :: "byte list \<Rightarrow> 32 word" where
  "vendor_of_bytes bs =
     (let p = bs @ replicate 4 0
      in word_of_nat (unat (p ! 0) + 256 * unat (p ! 1) + 65536 * unat (p ! 2)
                      + 16777216 * unat (p ! 3)))"

definition tpm_vendor_init ::
  "tpm_h \<Rightarrow> tpm_chip \<Rightarrow> nat \<Rightarrow> nat \<Rightarrow> world \<Rightarrow> (int \<times> tpm_chip) \<times> world" where
  "tpm_vendor_init K chip bus dev_address s =
     (if dev_address = 0
      then ((-1, chip), printk ''tpm_vendor_init: missing device address'' s)
      else
        let s0 = s\<lparr>g_tpm_dev := (g_tpm_dev s)\<lparr>dev_bus := bus, dev_addr := dev_address\<rparr>\<rparr>;
            chip0 = (cr50_vendor_init K chip)\<lparr>irq := 0\<rparr>
        in
        case request_locality K chip0 0 s0 of
          ((r, chip1), s1) \<Rightarrow>
            if r \<noteq> 0 then ((-1, chip1), s1)
            else
              (case iic_tpm_read (TPM_DID_VID K 0) 4 s1 of
                 (None, s2) \<Rightarrow> ((-1, chip1), release_locality K chip1 0 True s2)
               | (Some bs, s2) \<Rightarrow>
                   if vendor_of_bytes bs \<noteq> CR50_DID_VID
                   then ((-1, chip1),
                         release_locality K chip1 0 True
                           (printk ''Vendor ID not recognized'' s2))
                   else ((0, chip1\<lparr>is_open := 1\<rparr>), printk ''cr50 TPM'' s2)))"

definition tpm_vendor_cleanup :: "tpm_h \<Rightarrow> tpm_chip \<Rightarrow> world \<Rightarrow> world" where
  "tpm_vendor_cleanup K chip s = release_locality K chip (locality chip) True s"

section \<open>Running the driver on concrete inputs\<close>

text \<open>A bus that answers the successive transfers as listed, and fails every later one.\<close>

definition script :: "reply list \<Rightarrow> nat \<Rightarrow> reply" where
  "script rs n = (if n < length rs then rs ! n else Reply False [] 0)"

definition ack :: "byte list \<Rightarrow> reply" where
  "ack bs = Reply True bs 0"

definition nak :: reply where
  "nak = Reply False [] 0"

definition world0 :: "reply list \<Rightarrow> world" where
  "world0 rs =
     \<lparr>g_tpm_dev = \<lparr>dev_bus = 0, dev_addr = 0x50, dev_buf = replicate 64 0\<rparr>,
      clock = 0, replies = script rs, pos = 0, trace = []\<rparr>"

definition chip0 :: tpm_chip where
  "chip0 =
     \<lparr>is_open = 0, locality = 0, irq = 0, req_complete_mask = 0, req_complete_val = 0,
      req_canceled = 0, v_status = Unbound, v_recv = Unbound, v_send = Unbound,
      v_cancel = Unbound\<rparr>"




text \<open>
  A chip that answers every transfer at once and keeps announcing the burst count 1, with
  its status valid, ready for a command and expecting data.
\<close>

definition world_burst_one :: world where
  "world_burst_one = (world0 [])\<lparr>replies := (\<lambda>n. ack [0xC8, 1, 0, 0])\<rparr>"

section \<open>The vocabulary of the properties\<close>

text \<open>What the driver did between two states: the events added to the trace.\<close>

definition events_since :: "world \<Rightarrow> world \<Rightarrow> event list" where
  "events_since s s' = drop (length (trace s)) (trace s')"

text \<open>
  Every operation of the driver keeps the chip address, the bus and the answers of the
  bus, lets time and the transfer count grow, and adds events at the end of the trace.
\<close>

definition evolves :: "world \<Rightarrow> world \<Rightarrow> bool" where
  "evolves s s' \<longleftrightarrow>
     dev_addr (g_tpm_dev s') = dev_addr (g_tpm_dev s) \<and>
     dev_bus (g_tpm_dev s') = dev_bus (g_tpm_dev s) \<and>
     replies s' = replies s \<and> clock s \<le> clock s' \<and> pos s \<le> pos s' \<and>
     take (length (trace s)) (trace s') = trace s"

text \<open>The events of one iic_tpm_read of \<open>n\<close> bytes at the register \<open>a\<close>, by its result.\<close>

definition read_events :: "byte \<Rightarrow> nat \<Rightarrow> byte list option \<Rightarrow> event list \<Rightarrow> bool" where
  "read_events a n r ev \<longleftrightarrow>
     (case r of
        Some bs \<Rightarrow>
          length bs = n \<and>
          ev = [I2C_write [a] True, Mdelay CR50_TIMEOUT_SHORT_MS, I2C_read n (Some bs)]
      | None \<Rightarrow>
          ev = [] \<or>
          ev = [I2C_write [a] False, Printk ''iic_tpm_read: Address write failed''] \<or>
          ev = [I2C_write [a] True, Mdelay CR50_TIMEOUT_SHORT_MS, I2C_read n None,
                Printk ''iic_tpm_read: Read response failed''])"

text \<open>The events of one iic_tpm_write of the bytes \<open>d\<close> at the register \<open>a\<close>, by its result.\<close>

definition write_events :: "byte \<Rightarrow> byte list \<Rightarrow> bool \<Rightarrow> event list \<Rightarrow> bool" where
  "write_events a d ok ev \<longleftrightarrow>
     (if ok then ev = [I2C_write (a # d) True, Mdelay CR50_TIMEOUT_SHORT_MS]
      else ev = [] \<or>
           ev = [I2C_write (a # d) False, Printk ''iic_tpm_write: Error writing to TPM''])"

text \<open>What cr50_wait_burst_status asks of the four bytes of the status register.\<close>

definition burst_status_ok :: "byte \<Rightarrow> byte list \<Rightarrow> bool" where
  "burst_status_ok msk buf \<longleftrightarrow>
     buf ! 0 AND msk = msk \<and> 0 < read_le16 (drop 1 buf) \<and>
     read_le16 (drop 1 buf) \<le> CR50_MAX_BUFSIZE"

text \<open>
  The events of one wait at the status register \<open>a\<close>, by its result: rounds whose read
  failed or did not qualify, each closed by the short delay, and then either the read
  that qualified or the timeout message.
\<close>

inductive wait_events :: "byte \<Rightarrow> byte \<Rightarrow> (byte \<times> nat) option \<Rightarrow> event list \<Rightarrow> bool"
  for a :: byte and msk :: byte where
  wait_timeout:
    "wait_events a msk None
       [Printk ''cr50_wait_burst_status: Timeout reading burst and status'']"
| wait_found:
    "read_events a 4 (Some buf) ev \<Longrightarrow> burst_status_ok msk buf \<Longrightarrow>
       wait_events a msk (Some (buf ! 0, read_le16 (drop 1 buf))) ev"
| wait_read_failed:
    "read_events a 4 None ev \<Longrightarrow> wait_events a msk r d \<Longrightarrow>
       wait_events a msk r
         (ev @ [Printk ''cr50_wait_burst_status: Read failed'', Mdelay CR50_TIMEOUT_SHORT_MS] @ d)"
| wait_not_ok:
    "read_events a 4 (Some buf) ev \<Longrightarrow> \<not> burst_status_ok msk buf \<Longrightarrow>
       wait_events a msk r d \<Longrightarrow>
       wait_events a msk r (ev @ [Mdelay CR50_TIMEOUT_SHORT_MS] @ d)"

text \<open>What check_locality asks of the byte read from the access register.\<close>

definition locality_owned :: "tpm_h \<Rightarrow> byte list \<Rightarrow> bool" where
  "locality_owned K bs \<longleftrightarrow>
     hd bs AND (TPM_ACCESS_ACTIVE_LOCALITY K OR TPM_ACCESS_VALID K) =
       (TPM_ACCESS_ACTIVE_LOCALITY K OR TPM_ACCESS_VALID K)"

text \<open>
  The events of the polling loop of request_locality with \<open>n\<close> rounds left, by whether
  it found the locality: checks that did not find it, each followed by the delay of
  TPM_TIMEOUT, and then either the check that found it or nothing when the rounds are
  used up.
\<close>

inductive locality_events :: "tpm_h \<Rightarrow> int \<Rightarrow> nat \<Rightarrow> bool \<Rightarrow> event list \<Rightarrow> bool"
  for K :: tpm_h and loc :: int where
  locality_exhausted:
    "locality_events K loc 0 False []"
| locality_found:
    "read_events (TPM_ACCESS K loc) 1 (Some bs) ev \<Longrightarrow> locality_owned K bs \<Longrightarrow>
       locality_events K loc (Suc n) True ev"
| locality_retry:
    "read_events (TPM_ACCESS K loc) 1 x ev \<Longrightarrow>
       \<not> (\<exists>bs. x = Some bs \<and> locality_owned K bs) \<Longrightarrow>
       locality_events K loc n ok d \<Longrightarrow>
       locality_events K loc (Suc n) ok (ev @ [Mdelay (TPM_TIMEOUT K)] @ d)"

text \<open>
  The events of one cr50_tis_i2c_status at the status register \<open>a\<close>, by the byte it
  returns: the read, and the message when the read failed.
\<close>

definition status_events :: "byte \<Rightarrow> byte \<Rightarrow> event list \<Rightarrow> bool" where
  "status_events a st ev \<longleftrightarrow>
     (\<exists>buf. read_events a 4 (Some buf) ev \<and> st = buf ! 0) \<or>
     (\<exists>ev0. read_events a 4 None ev0 \<and> st = 0 \<and>
            ev = ev0 @ [Printk ''cr50_tis_i2c_status: Failed to read status''])"

text \<open>
  The events of one cr50_tis_i2c_ready: the write of the four bytes that start with the
  ready bit \<open>rdy\<close> to the status register \<open>a\<close>, and the short delay.
\<close>

definition ready_write_events :: "byte \<Rightarrow> byte \<Rightarrow> event list \<Rightarrow> bool" where
  "ready_write_events a rdy ev \<longleftrightarrow>
     (\<exists>ok evw. write_events a [rdy, 0, 0, 0] ok evw \<and>
               ev = evw @ [Mdelay CR50_TIMEOUT_SHORT_MS])"

text \<open>
  The events of the first loop of cr50_tis_i2c_send, by its result: rounds that found the
  ready bit clear and wrote the ready request, and then either the status read that
  found the bit or, after a status read that did not, the timeout message.
\<close>

inductive ready_events :: "byte \<Rightarrow> byte \<Rightarrow> bool \<Rightarrow> event list \<Rightarrow> bool"
  for a :: byte and rdy :: byte where
  ready_found:
    "status_events a st ev \<Longrightarrow> st AND rdy \<noteq> 0 \<Longrightarrow> ready_events a rdy True ev"
| ready_timeout:
    "status_events a st ev \<Longrightarrow> st AND rdy = 0 \<Longrightarrow>
       ready_events a rdy False (ev @ [Printk ''cr50_tis_i2c_send: Command ready timeout''])"
| ready_retry:
    "status_events a st ev \<Longrightarrow> st AND rdy = 0 \<Longrightarrow> ready_write_events a rdy evw \<Longrightarrow>
       ready_events a rdy r d \<Longrightarrow> ready_events a rdy r (ev @ evw @ d)"

text \<open>
  The successful raw reads that followed the selection of the register \<open>a\<close> in a list
  of events, in order: for each the burst count decoded from the last successful read of
  another register before it, and the number of bytes read. \<open>sel\<close> is the last raw
  write and \<open>b\<close> the last burst count before the list.
\<close>

fun read_log :: "byte \<Rightarrow> byte list \<Rightarrow> nat \<Rightarrow> event list \<Rightarrow> (nat \<times> nat) list" where
  "read_log a sel b [] = []"
| "read_log a sel b (I2C_write bs ok # ev) = read_log a bs b ev"
| "read_log a sel b (I2C_read n None # ev) = read_log a sel b ev"
| "read_log a sel b (I2C_read n (Some bs) # ev) =
     (if sel = [a] then (b, n) # read_log a sel b ev
      else read_log a sel (read_le16 (drop 1 bs)) ev)"
| "read_log a sel b (Mdelay m # ev) = read_log a sel b ev"
| "read_log a sel b (Printk m # ev) = read_log a sel b ev"

text \<open>The last raw write and the last burst count after a list of events.\<close>

fun read_end :: "byte \<Rightarrow> byte list \<Rightarrow> nat \<Rightarrow> event list \<Rightarrow> byte list \<times> nat" where
  "read_end a sel b [] = (sel, b)"
| "read_end a sel b (I2C_write bs ok # ev) = read_end a bs b ev"
| "read_end a sel b (I2C_read n None # ev) = read_end a sel b ev"
| "read_end a sel b (I2C_read n (Some bs) # ev) =
     (if sel = [a] then read_end a sel b ev
      else read_end a sel (read_le16 (drop 1 bs)) ev)"
| "read_end a sel b (Mdelay m # ev) = read_end a sel b ev"
| "read_end a sel b (Printk m # ev) = read_end a sel b ev"

text \<open>
  The reads of cr50_tis_i2c_recv after the first one, while \<open>missing\<close> bytes of the
  declared length are still to be read: each follows a status read with a burst count
  from 1 to 63 and takes min(burst count, bytes still missing). The list may stop early.
\<close>

fun later_reads_ok :: "nat \<Rightarrow> (nat \<times> nat) list \<Rightarrow> bool" where
  "later_reads_ok missing [] = True"
| "later_reads_ok missing ((b, n) # rs) =
     (0 < missing \<and> 1 \<le> b \<and> b \<le> 63 \<and> n = min b missing \<and> later_reads_ok (missing - n) rs)"

text \<open>
  One round of the command-ready loop when every transfer fails: the status read fails
  at its address byte and counts as status 0, the ready request is written and fails
  too, and the short delay follows. The last round has the timeout message instead.
\<close>

definition dead_round :: "byte \<Rightarrow> byte \<Rightarrow> event list" where
  "dead_round a rdy =
     [I2C_write [a] False, Printk ''iic_tpm_read: Address write failed'',
      Printk ''cr50_tis_i2c_status: Failed to read status'',
      I2C_write [a, rdy, 0, 0, 0] False, Printk ''iic_tpm_write: Error writing to TPM'',
      Mdelay CR50_TIMEOUT_SHORT_MS]"

definition dead_end :: "byte \<Rightarrow> event list" where
  "dead_end a =
     [I2C_write [a] False, Printk ''iic_tpm_read: Address write failed'',
      Printk ''cr50_tis_i2c_status: Failed to read status'',
      Printk ''cr50_tis_i2c_send: Command ready timeout'']"

text \<open>
  The successful writes to the register \<open>a\<close> in a list of events, in order: for each the
  burst count of the last successful read before it (\<open>b\<close> before the first read) and
  the number of data bytes written.
\<close>

fun chunk_log :: "byte \<Rightarrow> nat \<Rightarrow> event list \<Rightarrow> (nat \<times> nat) list" where
  "chunk_log a b [] = []"
| "chunk_log a b (I2C_read n (Some bs) # ev) = chunk_log a (read_le16 (drop 1 bs)) ev"
| "chunk_log a b (I2C_write (a' # d) True # ev) =
     (if a' = a then (b, length d) # chunk_log a b ev else chunk_log a b ev)"
| "chunk_log a b (e # ev) = chunk_log a b ev"

text \<open>The data bytes of the successful writes to the register \<open>a\<close>, in order.\<close>

fun written_to :: "byte \<Rightarrow> event list \<Rightarrow> byte list" where
  "written_to a [] = []"
| "written_to a (I2C_write (a' # d) True # ev) =
     (if a' = a then d @ written_to a ev else written_to a ev)"
| "written_to a (e # ev) = written_to a ev"

text \<open>
  The spec's splitting of a message of \<open>rem\<close> bytes: every chunk has a burst count from
  1 to 63 and the size min(burst count - 1, remaining bytes), and the chunks end when
  nothing remains.
\<close>

fun chunks_ok :: "nat \<Rightarrow> (nat \<times> nat) list \<Rightarrow> bool" where
  "chunks_ok rem [] = (rem = 0)"
| "chunks_ok rem ((b, c) # cs) =
     (0 < rem \<and> 1 \<le> b \<and> b \<le> 63 \<and> c = min (b - 1) rem \<and> chunks_ok (rem - c) cs)"

text \<open>
  The same for a send that may have stopped early: the chunks sent so far are as the
  splitting asks, whether or not they reach the end of the message.
\<close>

fun chunks_begin :: "nat \<Rightarrow> (nat \<times> nat) list \<Rightarrow> bool" where
  "chunks_begin rem [] = True"
| "chunks_begin rem ((b, c) # cs) =
     (0 < rem \<and> 1 \<le> b \<and> b \<le> 63 \<and> c = min (b - 1) rem \<and> chunks_begin (rem - c) cs)"

text \<open>Events that log the chunks \<open>cs\<close>, whatever comes before and after them.\<close>

definition logs :: "byte \<Rightarrow> event list \<Rightarrow> (nat \<times> nat) list \<Rightarrow> bool" where
  "logs a ev cs \<longleftrightarrow> (\<forall>b rest. \<exists>b'. chunk_log a b (ev @ rest) = cs @ chunk_log a b' rest)"

text \<open>
  A stretch of the run from \<open>s\<close> to \<open>s'\<close> that writes nothing to the register \<open>a\<close>.
\<close>

definition quiet :: "byte \<Rightarrow> world \<Rightarrow> world \<Rightarrow> bool" where
  "quiet a s s' \<longleftrightarrow>
     evolves s s' \<and> logs a (events_since s s') [] \<and> written_to a (events_since s s') = []"

text \<open>How a send ends that went through the label \<open>out\<close> from the state \<open>s0\<close>.\<close>

definition cancelled :: "tpm_h \<Rightarrow> tpm_chip \<Rightarrow> world \<Rightarrow> world \<Rightarrow> bool" where
  "cancelled K chip s0 s' \<longleftrightarrow>
     (\<exists>st s1. cr50_tis_i2c_status K chip s0 = (st, s1) \<and>
        (if st AND TPM_STS_COMMAND_READY K \<noteq> 0
         then \<exists>ok. events_since s1 s' =
                I2C_write [TPM_STS K (locality chip), TPM_STS_COMMAND_READY K, 0, 0, 0] ok #
                  (if ok then [Mdelay CR50_TIMEOUT_SHORT_MS]
                   else [Printk ''iic_tpm_write: Error writing to TPM'']) @
                  [Mdelay CR50_TIMEOUT_SHORT_MS]
         else s' = s1 \<or> s' = printk ''cr50_tis_i2c_send: Command ready timeout'' s1))"

section \<open>Evaluating a run\<close>

text \<open>The definitions unfolded when the driver is run on a concrete input.\<close>

lemmas run_defs =
  script_def ack_def nak_def world0_def chip0_def tis_h_def
  i2c_write_raw_def i2c_read_raw_def mdelay_def printk_def
  iic_tpm_read_def iic_tpm_write_def
  CR50_MAX_BUFSIZE_def CR50_TIMEOUT_SHORT_MS_def CR50_TIMEOUT_LONG_MS_def
  stopwatch_init_msecs_expire_def stopwatch_expired_def Let_def

section \<open>The register transport, case by case\<close>

lemma iic_tpm_read_Some:
  assumes "iic_tpm_read a n s = (Some bs, s')"
  shows "dev_addr (g_tpm_dev s) \<noteq> 0"
    and "r_ok (replies s (pos s))" and "r_ok (replies s (pos s + 1))"
    and "bs = take n (r_data (replies s (pos s + 1)) @ replicate n 0)"
    and "s' = s\<lparr>clock := clock s + r_dur (replies s (pos s)) + CR50_TIMEOUT_SHORT_MS
                         + r_dur (replies s (pos s + 1)),
                pos := pos s + 2,
                trace := trace s @ [I2C_write [a] True, Mdelay CR50_TIMEOUT_SHORT_MS,
                                    I2C_read n (Some bs)]\<rparr>"
  using assms
  by (auto simp: iic_tpm_read_def i2c_write_raw_def i2c_read_raw_def mdelay_def printk_def
        Let_def split: if_splits)

lemma iic_tpm_read_None:
  assumes "iic_tpm_read a n s = (None, s')"
  shows "(dev_addr (g_tpm_dev s) = 0 \<and> s' = s) \<or>
         (dev_addr (g_tpm_dev s) \<noteq> 0 \<and> \<not> r_ok (replies s (pos s)) \<and>
            s' = s\<lparr>clock := clock s + r_dur (replies s (pos s)), pos := pos s + 1,
                    trace := trace s @ [I2C_write [a] False,
                               Printk ''iic_tpm_read: Address write failed'']\<rparr>) \<or>
         (dev_addr (g_tpm_dev s) \<noteq> 0 \<and> r_ok (replies s (pos s)) \<and>
            \<not> r_ok (replies s (pos s + 1)) \<and>
            s' = s\<lparr>clock := clock s + r_dur (replies s (pos s)) + CR50_TIMEOUT_SHORT_MS
                         + r_dur (replies s (pos s + 1)),
                    pos := pos s + 2,
                    trace := trace s @ [I2C_write [a] True, Mdelay CR50_TIMEOUT_SHORT_MS,
                               I2C_read n None,
                               Printk ''iic_tpm_read: Read response failed'']\<rparr>)"
  using assms
  by (auto simp: iic_tpm_read_def i2c_write_raw_def i2c_read_raw_def mdelay_def printk_def
        Let_def split: if_splits)

lemma iic_tpm_write_True:
  assumes "iic_tpm_write a d s = (True, s')"
  shows "dev_addr (g_tpm_dev s) \<noteq> 0" and "length d \<le> CR50_MAX_BUFSIZE"
    and "r_ok (replies s (pos s))"
    and "s' = s\<lparr>g_tpm_dev := (g_tpm_dev s)\<lparr>dev_buf := (a # d) @ drop (length d + 1) (dev_buf (g_tpm_dev s))\<rparr>,
                clock := clock s + r_dur (replies s (pos s)) + CR50_TIMEOUT_SHORT_MS,
                pos := pos s + 1,
                trace := trace s @ [I2C_write (a # d) True, Mdelay CR50_TIMEOUT_SHORT_MS]\<rparr>"
  using assms
  by (auto simp: iic_tpm_write_def i2c_write_raw_def mdelay_def printk_def
        Let_def split: if_splits)

lemma iic_tpm_write_False:
  assumes "iic_tpm_write a d s = (False, s')"
  shows "((dev_addr (g_tpm_dev s) = 0 \<or> length d > CR50_MAX_BUFSIZE) \<and> s' = s) \<or>
         (dev_addr (g_tpm_dev s) \<noteq> 0 \<and> length d \<le> CR50_MAX_BUFSIZE \<and>
          \<not> r_ok (replies s (pos s)) \<and>
          s' = s\<lparr>g_tpm_dev := (g_tpm_dev s)\<lparr>dev_buf := (a # d) @ drop (length d + 1) (dev_buf (g_tpm_dev s))\<rparr>,
                clock := clock s + r_dur (replies s (pos s)),
                pos := pos s + 1,
                trace := trace s @ [I2C_write (a # d) False,
                           Printk ''iic_tpm_write: Error writing to TPM'']\<rparr>)"
  using assms
  by (auto simp: iic_tpm_write_def i2c_write_raw_def mdelay_def printk_def
        Let_def split: if_splits)

lemma events_since_append: "trace s' = trace s @ d \<Longrightarrow> events_since s s' = d"
  by (simp add: events_since_def)

section \<open>How the state evolves\<close>

lemma evolves_refl [simp]: "evolves s s"
  by (simp add: evolves_def)

lemma evolves_trace:
  assumes "evolves s s'"
  shows "trace s' = trace s @ events_since s s'"
proof -
  have "take (length (trace s)) (trace s') = trace s"
    using assms by (simp add: evolves_def)
  then have "trace s @ drop (length (trace s)) (trace s') = trace s'"
    by (metis append_take_drop_id)
  then show ?thesis by (simp add: events_since_def)
qed

lemma evolves_trans: "evolves s s1 \<Longrightarrow> evolves s1 s2 \<Longrightarrow> evolves s s2"
proof -
  assume a: "evolves s s1" and b: "evolves s1 s2"
  have "trace s2 = (trace s @ events_since s s1) @ events_since s1 s2"
    using evolves_trace [OF a] evolves_trace [OF b] by simp
  then have "take (length (trace s)) (trace s2) = trace s" by simp
  with a b show ?thesis by (simp add: evolves_def)
qed

lemma events_since_trans:
  assumes "evolves s s1" and "evolves s1 s2"
  shows "events_since s s2 = events_since s s1 @ events_since s1 s2"
proof -
  obtain e01 where 1: "trace s1 = trace s @ e01"
    using evolves_trace [OF assms(1)] by blast
  obtain e12 where 2: "trace s2 = trace s1 @ e12"
    using evolves_trace [OF assms(2)] by blast
  show ?thesis by (simp add: events_since_def 1 2)
qed

lemma events_since_self [simp]: "events_since s s = []"
  by (simp add: events_since_def)

lemma evolves_printk [simp]: "evolves s (printk m s)"
  by (simp add: evolves_def printk_def)

lemma events_printk [simp]: "events_since s (printk m s) = [Printk m]"
  by (simp add: events_since_def printk_def)

lemma evolves_mdelay [simp]: "evolves s (mdelay n s)"
  by (simp add: evolves_def mdelay_def)

lemma events_mdelay [simp]: "events_since s (mdelay n s) = [Mdelay n]"
  by (simp add: events_since_def mdelay_def)

lemma iic_tpm_read_evolves: "iic_tpm_read a n s = (r, s') \<Longrightarrow> evolves s s'"
  by (auto simp: iic_tpm_read_def i2c_write_raw_def i2c_read_raw_def mdelay_def printk_def
        Let_def evolves_def split: if_splits)

lemma iic_tpm_read_events:
  "iic_tpm_read a n s = (r, s') \<Longrightarrow> read_events a n r (events_since s s')"
  by (auto simp: iic_tpm_read_def i2c_write_raw_def i2c_read_raw_def mdelay_def printk_def
        Let_def read_events_def events_since_def split: if_splits)

lemma iic_tpm_write_evolves: "iic_tpm_write a d s = (ok, s') \<Longrightarrow> evolves s s'"
  by (auto simp: iic_tpm_write_def i2c_write_raw_def mdelay_def printk_def
        Let_def evolves_def split: if_splits)

lemma iic_tpm_write_events:
  "iic_tpm_write a d s = (ok, s') \<Longrightarrow> write_events a d ok (events_since s s')"
  by (auto simp: iic_tpm_write_def i2c_write_raw_def mdelay_def printk_def
        Let_def write_events_def events_since_def split: if_splits)

section \<open>The wait for burst count and status\<close>

lemma wait_loop_run:
  "cr50_wait_burst_status_loop K chip msk sw s = (r, s') \<Longrightarrow>
     evolves s s' \<and> wait_events (TPM_STS K (locality chip)) msk r (events_since s s') \<and>
     (r = None \<longrightarrow> sw \<le> clock s')"
proof (induction K chip msk sw s rule: cr50_wait_burst_status_loop.induct)
  case (1 K chip msk sw s)
  let ?a = "TPM_STS K (locality chip)"
  show ?case
  proof (cases "stopwatch_expired sw s")
    case True
    with "1.prems" show ?thesis
      by (auto simp: cr50_wait_burst_status_loop.simps [of K chip msk sw s]
            stopwatch_expired_def intro: wait_events.wait_timeout)
  next
    case False
    obtain x s1 where rd: "iic_tpm_read ?a 4 s = (x, s1)"
      by force
    note e1 = iic_tpm_read_evolves [OF rd] and ev1 = iic_tpm_read_events [OF rd]
    show ?thesis
    proof (cases x)
      case None
      let ?s2 = "mdelay CR50_TIMEOUT_SHORT_MS (printk ''cr50_wait_burst_status: Read failed'' s1)"
      from None False rd "1.prems"
      have run: "cr50_wait_burst_status_loop K chip msk sw ?s2 = (r, s')"
        by (simp add: cr50_wait_burst_status_loop.simps [of K chip msk sw s])
      from "1.IH"(1) [OF False rd [symmetric] None run]
      have ih: "evolves ?s2 s'" "wait_events ?a msk r (events_since ?s2 s')"
        "r = None \<longrightarrow> sw \<le> clock s'"
        by simp_all
      have e12: "evolves s1 ?s2"
        by (rule evolves_trans [OF evolves_printk evolves_mdelay])
      have ev12: "events_since s1 ?s2 =
          [Printk ''cr50_wait_burst_status: Read failed'', Mdelay CR50_TIMEOUT_SHORT_MS]"
        using events_since_trans [OF evolves_printk evolves_mdelay] by simp
      have e02: "evolves s ?s2"
        by (rule evolves_trans [OF e1 e12])
      have "events_since s s' = events_since s s1 @ events_since s1 ?s2 @ events_since ?s2 s'"
        using events_since_trans [OF e02 ih(1)] events_since_trans [OF e1 e12] by simp
      with ev1 None ih ev12 wait_events.wait_read_failed [where ev = "events_since s s1" and a = ?a and msk = msk and r = r]
      have "wait_events ?a msk r (events_since s s')"
        by simp
      with ih evolves_trans [OF e02 ih(1)] show ?thesis by simp
    next
      case (Some buf)
      show ?thesis
      proof (cases "burst_status_ok msk buf")
        case True
        with Some False rd "1.prems" have res: "r = Some (buf ! 0, read_le16 (drop 1 buf))" "s' = s1"
          by (auto simp: cr50_wait_burst_status_loop.simps [of K chip msk sw s] Let_def
                burst_status_ok_def)
        with e1 ev1 Some True wait_events.wait_found [where buf = buf and ev = "events_since s s1" and a = ?a and msk = msk]
        show ?thesis
          by simp
      next
        case nok: False
        let ?s2 = "mdelay CR50_TIMEOUT_SHORT_MS s1"
        from Some False nok rd "1.prems"
        have run: "cr50_wait_burst_status_loop K chip msk sw ?s2 = (r, s')"
          by (auto simp: cr50_wait_burst_status_loop.simps [of K chip msk sw s] Let_def
                burst_status_ok_def split: if_splits)
        have cond: "\<not> (buf ! 0 AND msk = msk \<and> 0 < read_le16 (drop 1 buf) \<and>
                   read_le16 (drop 1 buf) \<le> CR50_MAX_BUFSIZE)"
          using nok by (simp add: burst_status_ok_def)
        from "1.IH"(2) [OF False rd [symmetric] Some refl refl cond run]
        have ih: "evolves ?s2 s'" "wait_events ?a msk r (events_since ?s2 s')"
          "r = None \<longrightarrow> sw \<le> clock s'"
          by simp_all
        have e02: "evolves s ?s2"
          by (rule evolves_trans [OF e1 evolves_mdelay])
        have "events_since s s' = events_since s s1 @ [Mdelay CR50_TIMEOUT_SHORT_MS] @ events_since ?s2 s'"
          using events_since_trans [OF e02 ih(1)] events_since_trans [OF e1 evolves_mdelay]
          by simp
        with ev1 Some nok ih wait_events.wait_not_ok [where ev = "events_since s s1" and a = ?a and msk = msk and r = r and buf = buf]
        have "wait_events ?a msk r (events_since s s')"
          by simp
        with ih evolves_trans [OF e02 ih(1)] show ?thesis by simp
      qed
    qed
  qed
qed

lemma wait_run:
  assumes "cr50_wait_burst_status K chip msk s = (r, s')"
  shows "evolves s s'"
    and "wait_events (TPM_STS K (locality chip)) msk r (events_since s s')"
    and "r = None \<Longrightarrow> clock s + CR50_TIMEOUT_LONG_MS \<le> clock s'"
  using wait_loop_run [of K chip msk "stopwatch_init_msecs_expire CR50_TIMEOUT_LONG_MS s" s r s']
    assms
  by (simp_all add: cr50_wait_burst_status_def stopwatch_init_msecs_expire_def)

lemma read_events_set:
  "read_events a n x ev \<Longrightarrow> I2C_read m (Some buf) \<in> set ev \<longleftrightarrow> m = n \<and> x = Some buf"
  by (auto simp: read_events_def split: option.splits)

lemma wait_events_found_iff:
  "wait_events a msk r d \<Longrightarrow>
     (r \<noteq> None) = (\<exists>buf. I2C_read 4 (Some buf) \<in> set d \<and> burst_status_ok msk buf)"
proof (induction rule: wait_events.induct)
  case wait_timeout
  show ?case by simp
next
  case (wait_found buf ev)
  then show ?case by (auto simp: read_events_set)
next
  case (wait_read_failed ev r d)
  then show ?case by (simp add: read_events_set)
next
  case (wait_not_ok buf ev r d)
  then show ?case by (auto simp: read_events_set)
qed

lemma wait_events_Some:
  "wait_events a msk r d \<Longrightarrow> r = Some (st, b) \<Longrightarrow>
     \<exists>buf d0. d = d0 @ [I2C_write [a] True, Mdelay CR50_TIMEOUT_SHORT_MS, I2C_read 4 (Some buf)] \<and>
       st = buf ! 0 \<and> b = read_le16 (drop 1 buf) \<and> burst_status_ok msk buf"
proof (induction rule: wait_events.induct)
  case wait_timeout
  then show ?case by simp
next
  case (wait_found buf ev)
  then show ?case by (auto simp: read_events_def)
next
  case (wait_read_failed ev r d)
  then obtain buf d0 where
    "d = d0 @ [I2C_write [a] True, Mdelay CR50_TIMEOUT_SHORT_MS, I2C_read 4 (Some buf)]"
    "st = buf ! 0" "b = read_le16 (drop 1 buf)" "burst_status_ok msk buf"
    by blast
  then show ?case
    by (intro exI [of _ buf]
          exI [of _ "ev @ [Printk ''cr50_wait_burst_status: Read failed'',
                           Mdelay CR50_TIMEOUT_SHORT_MS] @ d0"]) simp
next
  case (wait_not_ok buf' ev r d)
  then obtain buf d0 where
    "d = d0 @ [I2C_write [a] True, Mdelay CR50_TIMEOUT_SHORT_MS, I2C_read 4 (Some buf)]"
    "st = buf ! 0" "b = read_le16 (drop 1 buf)" "burst_status_ok msk buf"
    by blast
  then show ?case
    by (intro exI [of _ buf] exI [of _ "ev @ [Mdelay CR50_TIMEOUT_SHORT_MS] @ d0"]) simp
qed

lemma wait_events_None:
  "wait_events a msk r d \<Longrightarrow> r = None \<Longrightarrow>
     \<exists>d0. d = d0 @ [Printk ''cr50_wait_burst_status: Timeout reading burst and status'']"
proof (induction rule: wait_events.induct)
  case wait_timeout
  show ?case by simp
next
  case (wait_found buf ev)
  then show ?case by simp
next
  case (wait_read_failed ev r d)
  then obtain d0 where
    "d = d0 @ [Printk ''cr50_wait_burst_status: Timeout reading burst and status'']"
    by blast
  then show ?case
    by (intro exI [of _ "ev @ [Printk ''cr50_wait_burst_status: Read failed'',
                               Mdelay CR50_TIMEOUT_SHORT_MS] @ d0"]) simp
next
  case (wait_not_ok buf ev r d)
  then obtain d0 where
    "d = d0 @ [Printk ''cr50_wait_burst_status: Timeout reading burst and status'']"
    by blast
  then show ?case
    by (intro exI [of _ "ev @ [Mdelay CR50_TIMEOUT_SHORT_MS] @ d0"]) simp
qed

section \<open>Locality\<close>

text \<open>
  C3, as amended. release_locality first reads the access register. When that read fails
  nothing is written, with or without force. When it succeeds, the write of the
  active-locality bit goes out on the bus exactly when force is set or the byte read has
  the request-pending and the valid bit.
\<close>

theorem release_locality_write:
  assumes "iic_tpm_read (TPM_ACCESS K loc) 1 s = (r, s1)"
  shows "case r of
           None \<Rightarrow> release_locality K chip loc force s = s1
         | Some bs \<Rightarrow>
             if force \<or> hd bs AND (TPM_ACCESS_REQUEST_PENDING K OR TPM_ACCESS_VALID K) =
                            (TPM_ACCESS_REQUEST_PENDING K OR TPM_ACCESS_VALID K)
             then \<exists>ok. events_since s1 (release_locality K chip loc force s) =
                    I2C_write [TPM_ACCESS K loc, TPM_ACCESS_ACTIVE_LOCALITY K] ok #
                      (if ok then [Mdelay CR50_TIMEOUT_SHORT_MS]
                       else [Printk ''iic_tpm_write: Error writing to TPM''])
             else release_locality K chip loc force s = s1"
proof (cases r)
  case None
  with assms show ?thesis by (simp add: release_locality_def)
next
  case (Some bs)
  with assms have rd: "iic_tpm_read (TPM_ACCESS K loc) 1 s = (Some bs, s1)" by simp
  have a: "dev_addr (g_tpm_dev s1) \<noteq> 0"
    using iic_tpm_read_Some(1) [OF rd] iic_tpm_read_Some(5) [OF rd] by simp
  obtain ok s2 where w: "iic_tpm_write (TPM_ACCESS K loc) [TPM_ACCESS_ACTIVE_LOCALITY K] s1 = (ok, s2)"
    by force
  have "events_since s1 s2 =
          I2C_write [TPM_ACCESS K loc, TPM_ACCESS_ACTIVE_LOCALITY K] ok #
            (if ok then [Mdelay CR50_TIMEOUT_SHORT_MS]
             else [Printk ''iic_tpm_write: Error writing to TPM''])"
  proof (cases ok)
    case True
    with w iic_tpm_write_True(4) [of "TPM_ACCESS K loc" "[TPM_ACCESS_ACTIVE_LOCALITY K]" s1 s2]
    show ?thesis by (simp add: events_since_def)
  next
    case False
    with w a iic_tpm_write_False [of "TPM_ACCESS K loc" "[TPM_ACCESS_ACTIVE_LOCALITY K]" s1 s2]
    show ?thesis by (auto simp: events_since_def CR50_MAX_BUFSIZE_def)
  qed
  with Some rd w show ?thesis
    by (auto simp: release_locality_def)
qed

theorem release_locality_write_witness:
  "iic_tpm_read (TPM_ACCESS tis_h 0) 1 (world0 [ack [], ack [0], ack []]) =
     (Some [0], snd (iic_tpm_read (TPM_ACCESS tis_h 0) 1 (world0 [ack [], ack [0], ack []])))
   \<and> events_since (snd (iic_tpm_read (TPM_ACCESS tis_h 0) 1 (world0 [ack [], ack [0], ack []])))
        (release_locality tis_h chip0 0 True (world0 [ack [], ack [0], ack []])) =
      [I2C_write [0, 0x20] True, Mdelay 2]"
  using release_locality_write [of tis_h 0 "world0 [ack [], ack [0], ack []]" "Some [0]"
          "snd (iic_tpm_read (TPM_ACCESS tis_h 0) 1 (world0 [ack [], ack [0], ack []]))" chip0 True]
  by (simp add: run_defs release_locality_def events_since_def)

text \<open>
  C3 as stated fails where the read of the access register fails: with a bus that does
  not answer, the forced release writes nothing after the address byte of the read.
\<close>

theorem release_locality_force_counterexample:
  "trace (release_locality tis_h chip0 0 True (world0 [])) =
     [I2C_write [0] False, Printk ''iic_tpm_read: Address write failed'']"
  by (simp add: run_defs release_locality_def)

text \<open>
  C8. When the access register shows the locality active and valid, request_locality
  returns the locality at once: all it did on the bus is the one read of the access
  register (the address byte, the short delay, the read of one byte), and no register is
  written.
\<close>

theorem request_locality_owned:
  assumes "iic_tpm_read (TPM_ACCESS K loc) 1 s = (Some bs, s1)"
    and "hd bs AND (TPM_ACCESS_ACTIVE_LOCALITY K OR TPM_ACCESS_VALID K) =
           (TPM_ACCESS_ACTIVE_LOCALITY K OR TPM_ACCESS_VALID K)"
    and "0 \<le> loc"
  shows "request_locality K chip loc s = ((loc, chip\<lparr>locality := loc\<rparr>), s1) \<and>
         events_since s s1 =
           [I2C_write [TPM_ACCESS K loc] True, Mdelay CR50_TIMEOUT_SHORT_MS,
            I2C_read 1 (Some bs)]"
  using assms iic_tpm_read_Some(5) [OF assms(1)]
  by (simp add: request_locality_def check_locality_def events_since_def)

theorem request_locality_owned_witness:
  "request_locality tis_h chip0 0 (world0 [ack [], ack [0xa0]]) =
     ((0, chip0\<lparr>locality := 0\<rparr>),
      snd (iic_tpm_read (TPM_ACCESS tis_h 0) 1 (world0 [ack [], ack [0xa0]]))) \<and>
   events_since (world0 [ack [], ack [0xa0]])
     (snd (iic_tpm_read (TPM_ACCESS tis_h 0) 1 (world0 [ack [], ack [0xa0]]))) =
     [I2C_write [0] True, Mdelay 2, I2C_read 1 (Some [0xa0])]"
  using request_locality_owned [of tis_h 0 "world0 [ack [], ack [0xa0]]" "[0xa0]"
          "snd (iic_tpm_read (TPM_ACCESS tis_h 0) 1 (world0 [ack [], ack [0xa0]]))" chip0]
  by (simp add: run_defs)

text \<open>
  C6. cr50_wait_burst_status succeeds exactly when one of its reads of the status register
  gave a status byte with all bits of the mask and a burst count from 1 to 63; it then
  returns the status and burst count of that read, the last thing it did. It fails only
  once the 2000 ms of its stopwatch have passed, with the timeout message. A read that
  fails inside the loop is logged and, after the short delay, the loop goes on.
\<close>

theorem wait_burst_status_spec:
  assumes "cr50_wait_burst_status K chip msk s = (r, s')"
  shows "((r \<noteq> None) =
            (\<exists>buf. I2C_read 4 (Some buf) \<in> set (events_since s s') \<and> burst_status_ok msk buf)) \<and>
         (case r of
            Some (st, b) \<Rightarrow>
              st AND msk = msk \<and> 1 \<le> b \<and> b \<le> 63 \<and>
              (\<exists>buf. last (events_since s s') = I2C_read 4 (Some buf) \<and>
                     st = buf ! 0 \<and> b = read_le16 (drop 1 buf))
          | None \<Rightarrow>
              clock s + 2000 \<le> clock s' \<and>
              last (events_since s s') =
                Printk ''cr50_wait_burst_status: Timeout reading burst and status'') \<and>
         (\<forall>sw s0 s1.
            \<not> stopwatch_expired sw s0 \<longrightarrow>
            iic_tpm_read (TPM_STS K (locality chip)) 4 s0 = (None, s1) \<longrightarrow>
            cr50_wait_burst_status_loop K chip msk sw s0 =
              cr50_wait_burst_status_loop K chip msk sw
                (mdelay CR50_TIMEOUT_SHORT_MS
                   (printk ''cr50_wait_burst_status: Read failed'' s1)))"
proof (intro conjI)
  note ev = wait_run(2) [OF assms]
  show "(r \<noteq> None) =
          (\<exists>buf. I2C_read 4 (Some buf) \<in> set (events_since s s') \<and> burst_status_ok msk buf)"
    by (rule wait_events_found_iff [OF ev])
  show "case r of
          Some (st, b) \<Rightarrow>
            st AND msk = msk \<and> 1 \<le> b \<and> b \<le> 63 \<and>
            (\<exists>buf. last (events_since s s') = I2C_read 4 (Some buf) \<and>
                   st = buf ! 0 \<and> b = read_le16 (drop 1 buf))
        | None \<Rightarrow>
            clock s + 2000 \<le> clock s' \<and>
            last (events_since s s') =
              Printk ''cr50_wait_burst_status: Timeout reading burst and status''"
  proof (cases r)
    case None
    with wait_events_None [OF ev] wait_run(3) [OF assms] show ?thesis
      by (auto simp: CR50_TIMEOUT_LONG_MS_def)
  next
    case (Some p)
    obtain st b where p: "p = (st, b)" by (cases p)
    from wait_events_Some [OF ev, of st b] Some p
    obtain buf d0 where
      "events_since s s' =
         d0 @ [I2C_write [TPM_STS K (locality chip)] True, Mdelay CR50_TIMEOUT_SHORT_MS,
               I2C_read 4 (Some buf)]"
      "st = buf ! 0" "b = read_le16 (drop 1 buf)" "burst_status_ok msk buf"
      by blast
    with Some p show ?thesis
      by (auto simp: burst_status_ok_def CR50_MAX_BUFSIZE_def)
  qed
  show "\<forall>sw s0 s1.
          \<not> stopwatch_expired sw s0 \<longrightarrow>
          iic_tpm_read (TPM_STS K (locality chip)) 4 s0 = (None, s1) \<longrightarrow>
          cr50_wait_burst_status_loop K chip msk sw s0 =
            cr50_wait_burst_status_loop K chip msk sw
              (mdelay CR50_TIMEOUT_SHORT_MS
                 (printk ''cr50_wait_burst_status: Read failed'' s1))"
  proof (intro allI impI)
    fix sw s0 s1
    assume "\<not> stopwatch_expired sw s0"
      and "iic_tpm_read (TPM_STS K (locality chip)) 4 s0 = (None, s1)"
    then show "cr50_wait_burst_status_loop K chip msk sw s0 =
            cr50_wait_burst_status_loop K chip msk sw
              (mdelay CR50_TIMEOUT_SHORT_MS
                 (printk ''cr50_wait_burst_status: Read failed'' s1))"
      by (simp add: cr50_wait_burst_status_loop.simps [of K chip msk sw s0])
  qed
qed

theorem wait_burst_status_spec_witness:
  "cr50_wait_burst_status tis_h chip0 0x80 (world0 [nak, ack [], ack [0x90, 10, 0, 0]]) =
     (Some (0x90, 10),
      snd (cr50_wait_burst_status tis_h chip0 0x80 (world0 [nak, ack [], ack [0x90, 10, 0, 0]])))
   \<and> events_since (world0 [nak, ack [], ack [0x90, 10, 0, 0]])
        (snd (cr50_wait_burst_status tis_h chip0 0x80
                (world0 [nak, ack [], ack [0x90, 10, 0, 0]]))) =
      [I2C_write [1] False, Printk ''iic_tpm_read: Address write failed'',
       Printk ''cr50_wait_burst_status: Read failed'', Mdelay 2,
       I2C_write [1] True, Mdelay 2, I2C_read 4 (Some [0x90, 10, 0, 0])]
   \<and> burst_status_ok 0x80 [0x90, 10, 0, 0]"
  using wait_burst_status_spec [of tis_h chip0 "0x80" "world0 [nak, ack [], ack [0x90, 10, 0, 0]]"
      "Some (0x90, 10)"
      "snd (cr50_wait_burst_status tis_h chip0 0x80 (world0 [nak, ack [], ack [0x90, 10, 0, 0]]))"]
  by (simp add: cr50_wait_burst_status_def cr50_wait_burst_status_loop.simps run_defs
        read_le16_def events_since_def burst_status_ok_def)

section \<open>Requesting the locality\<close>

lemma check_locality_run:
  assumes "check_locality K chip loc s = ((r, chip'), s')" and "0 \<le> loc"
  shows "\<exists>x. iic_tpm_read (TPM_ACCESS K loc) 1 s = (x, s') \<and>
           (if \<exists>bs. x = Some bs \<and> locality_owned K bs
            then r = loc \<and> chip' = chip\<lparr>locality := loc\<rparr>
            else r = -1 \<and> chip' = chip)"
  using assms
  by (auto simp: check_locality_def locality_owned_def Let_def
           split: prod.splits option.splits if_splits)

lemma request_locality_loop_run:
  "request_locality_loop K chip loc n s = ((r, chip'), s') \<Longrightarrow> 0 \<le> loc \<Longrightarrow>
     evolves s s' \<and> locality_events K loc n (0 \<le> r) (events_since s s') \<and>
     (if 0 \<le> r then r = loc \<and> chip' = chip\<lparr>locality := loc\<rparr>
      else r = -1 \<and> chip' = chip \<and> clock s + n * TPM_TIMEOUT K \<le> clock s')"
proof (induction K chip loc n s rule: request_locality_loop.induct)
  case (1 K chip loc n s)
  show ?case
  proof (cases "n = 0")
    case True
    with "1.prems" have "r = -1" "chip' = chip" "s' = s"
      by (simp_all add: request_locality_loop.simps [of K chip loc 0 s])
    with True show ?thesis
      by (simp add: locality_events.locality_exhausted)
  next
    case False
    then obtain m where n: "n = Suc m" by (cases n) auto
    obtain r1 chip1 s1 where ck: "check_locality K chip loc s = ((r1, chip1), s1)"
      by (metis surj_pair)
    from check_locality_run [OF ck "1.prems"(2)]
    obtain x where rd: "iic_tpm_read (TPM_ACCESS K loc) 1 s = (x, s1)"
      and res: "if \<exists>bs. x = Some bs \<and> locality_owned K bs
                then r1 = loc \<and> chip1 = chip\<lparr>locality := loc\<rparr>
                else r1 = -1 \<and> chip1 = chip"
      by blast
    note e1 = iic_tpm_read_evolves [OF rd] and ev1 = iic_tpm_read_events [OF rd]
    show ?thesis
    proof (cases "\<exists>bs. x = Some bs \<and> locality_owned K bs")
      case True
      with res "1.prems"(2) have r1: "r1 = loc" "chip1 = chip\<lparr>locality := loc\<rparr>" "0 \<le> r1"
        by auto
      with False ck "1.prems"(1) have out: "r = loc" "chip' = chip1" "s' = s1"
        by (auto simp: request_locality_loop.simps [of K chip loc n s])
      from True obtain bs where "x = Some bs" "locality_owned K bs" by blast
      with ev1 locality_events.locality_found [where K = K and loc = loc and bs = bs
          and ev = "events_since s s1" and n = m]
      have "locality_events K loc n True (events_since s s1)"
        by (simp add: n)
      with out r1 e1 "1.prems"(2) show ?thesis by simp
    next
      case nf: False
      with res have r1: "r1 = -1" "chip1 = chip" by auto
      let ?s2 = "mdelay (TPM_TIMEOUT K) s1"
      from r1 False ck "1.prems"(1)
      have run: "request_locality_loop K chip1 loc (n - 1) ?s2 = ((r, chip'), s')"
        by (simp add: request_locality_loop.simps [of K chip loc n s])
      have nge: "\<not> 0 \<le> r1" using r1 by simp
      from "1.IH" [OF False ck [symmetric] refl nge run "1.prems"(2)]
      have ih: "evolves ?s2 s'" "locality_events K loc m (0 \<le> r) (events_since ?s2 s')"
        "if 0 \<le> r then r = loc \<and> chip' = chip\<lparr>locality := loc\<rparr>
         else r = -1 \<and> chip' = chip \<and> clock ?s2 + m * TPM_TIMEOUT K \<le> clock s'"
        by (simp_all add: n r1 cong: if_cong)
      have e02: "evolves s ?s2"
        by (rule evolves_trans [OF e1 evolves_mdelay])
      have "events_since s s' =
              events_since s s1 @ [Mdelay (TPM_TIMEOUT K)] @ events_since ?s2 s'"
        using events_since_trans [OF e02 ih(1)] events_since_trans [OF e1 evolves_mdelay]
        by simp
      with ev1 nf ih(2) locality_events.locality_retry [where K = K and loc = loc and x = x
          and ev = "events_since s s1" and n = m and ok = "0 \<le> r"
          and d = "events_since ?s2 s'"]
      have "locality_events K loc n (0 \<le> r) (events_since s s')"
        by (simp add: n)
      moreover have "clock s \<le> clock s1"
        using e1 by (simp add: evolves_def)
      ultimately show ?thesis
        using ih(3) evolves_trans [OF e02 ih(1)] by (auto simp: n)
    qed
  qed
qed

lemma locality_events_found:
  "locality_events K loc n ok d \<Longrightarrow> ok \<Longrightarrow>
     \<exists>bs d0. d = d0 @ [I2C_read 1 (Some bs)] \<and> locality_owned K bs"
proof (induction rule: locality_events.induct)
  case locality_exhausted
  then show ?case by simp
next
  case (locality_found bs ev n)
  then show ?case by (auto simp: read_events_def)
next
  case (locality_retry x ev n ok d)
  then obtain bs d0 where "d = d0 @ [I2C_read 1 (Some bs)]" "locality_owned K bs"
    by blast
  then show ?case
    by (intro exI [of _ bs] exI [of _ "ev @ [Mdelay (TPM_TIMEOUT K)] @ d0"]) simp
qed

lemma locality_events_not_found:
  "locality_events K loc n ok d \<Longrightarrow> \<not> ok \<Longrightarrow> I2C_read 1 (Some bs) \<in> set d \<Longrightarrow>
     \<not> locality_owned K bs"
proof (induction rule: locality_events.induct)
  case locality_exhausted
  then show ?case by simp
next
  case (locality_found bs ev n)
  then show ?case by simp
next
  case (locality_retry x ev n ok d)
  then show ?case by (auto simp: read_events_set)
qed

lemma write_events_no_read: "write_events a d ok ev \<Longrightarrow> I2C_read n x \<notin> set ev"
  by (auto simp: write_events_def split: if_splits)

lemma request_locality_run:
  assumes "request_locality K chip loc s = ((r, chip'), s')" and "0 \<le> loc"
  shows "evolves s s' \<and>
     (r = loc \<and> chip' = chip\<lparr>locality := loc\<rparr> \<and>
        (\<exists>bs d0. events_since s s' = d0 @ [I2C_read 1 (Some bs)] \<and> locality_owned K bs)
      \<or> r = -1 \<and> chip' = chip \<and> clock s + 2000 * TPM_TIMEOUT K \<le> clock s' \<and>
        (\<forall>bs. I2C_read 1 (Some bs) \<in> set (events_since s s') \<longrightarrow> \<not> locality_owned K bs))"
proof -
  obtain r1 chip1 s1 where ck: "check_locality K chip loc s = ((r1, chip1), s1)"
    by (metis surj_pair)
  from check_locality_run [OF ck assms(2)]
  obtain x where rd: "iic_tpm_read (TPM_ACCESS K loc) 1 s = (x, s1)"
    and res: "if \<exists>bs. x = Some bs \<and> locality_owned K bs
              then r1 = loc \<and> chip1 = chip\<lparr>locality := loc\<rparr>
              else r1 = -1 \<and> chip1 = chip"
    by blast
  note e1 = iic_tpm_read_evolves [OF rd] and ev1 = iic_tpm_read_events [OF rd]
  show ?thesis
  proof (cases "\<exists>bs. x = Some bs \<and> locality_owned K bs")
    case True
    with res assms(2) have r1: "r1 = loc" "chip1 = chip\<lparr>locality := loc\<rparr>" "0 \<le> r1"
      by auto
    with ck assms(1) have out: "r = loc" "chip' = chip1" "s' = s1"
      by (auto simp: request_locality_def)
    from True obtain bs where "x = Some bs" "locality_owned K bs" by blast
    with ev1 have "\<exists>bs d0. events_since s s1 = d0 @ [I2C_read 1 (Some bs)] \<and> locality_owned K bs"
      by (auto simp: read_events_def)
    with out r1 e1 show ?thesis by simp
  next
    case nf: False
    with res have r1: "r1 = -1" "chip1 = chip" by auto
    obtain ok s2 where w: "iic_tpm_write (TPM_ACCESS K loc) [TPM_ACCESS_REQUEST_USE K] s1 = (ok, s2)"
      by force
    note e2 = iic_tpm_write_evolves [OF w] and ev2 = iic_tpm_write_events [OF w]
    from r1 ck w assms(1)
    have run: "request_locality_loop K chip loc 2000 s2 = ((r, chip'), s')"
      by (simp add: request_locality_def)
    from request_locality_loop_run [OF run assms(2)]
    have lp: "evolves s2 s'" "locality_events K loc 2000 (0 \<le> r) (events_since s2 s')"
      "if 0 \<le> r then r = loc \<and> chip' = chip\<lparr>locality := loc\<rparr>
       else r = -1 \<and> chip' = chip \<and> clock s2 + 2000 * TPM_TIMEOUT K \<le> clock s'"
      by simp_all
    have e02: "evolves s s2" by (rule evolves_trans [OF e1 e2])
    have e0: "evolves s s'" by (rule evolves_trans [OF e02 lp(1)])
    have evs: "events_since s s' = events_since s s1 @ events_since s1 s2 @ events_since s2 s'"
      using events_since_trans [OF e02 lp(1)] events_since_trans [OF e1 e2] by simp
    show ?thesis
    proof (cases "0 \<le> r")
      case True
      from locality_events_found [OF lp(2) True]
      obtain bs d0 where "events_since s2 s' = d0 @ [I2C_read 1 (Some bs)]" "locality_owned K bs"
        by blast
      with evs have "\<exists>bs d0. events_since s s' = d0 @ [I2C_read 1 (Some bs)] \<and> locality_owned K bs"
        by (intro exI [of _ bs] exI [of _ "events_since s s1 @ events_since s1 s2 @ d0"]) simp
      with True lp(3) e0 show ?thesis by simp
    next
      case False
      have "clock s \<le> clock s2" using e02 by (simp add: evolves_def)
      moreover have "\<not> locality_owned K bs" if "I2C_read 1 (Some bs) \<in> set (events_since s s')" for bs
      proof -
        from that evs consider "I2C_read 1 (Some bs) \<in> set (events_since s s1)"
          | "I2C_read 1 (Some bs) \<in> set (events_since s1 s2)"
          | "I2C_read 1 (Some bs) \<in> set (events_since s2 s')"
          by auto
        then show ?thesis
        proof cases
          case 1
          with ev1 nf show ?thesis by (auto simp: read_events_set)
        next
          case 2
          with write_events_no_read [OF ev2] show ?thesis by simp
        next
          case 3
          with locality_events_not_found [OF lp(2) False] show ?thesis by simp
        qed
      qed
      ultimately show ?thesis using False lp(3) e0 by auto
    qed
  qed
qed

section \<open>Waiting for command ready\<close>

lemma status_run:
  assumes "cr50_tis_i2c_status K chip s = (st, s')"
  shows "evolves s s'" and "status_events (TPM_STS K (locality chip)) st (events_since s s')"
proof -
  obtain x s1 where rd: "iic_tpm_read (TPM_STS K (locality chip)) 4 s = (x, s1)"
    by force
  note e1 = iic_tpm_read_evolves [OF rd] and ev1 = iic_tpm_read_events [OF rd]
  show "evolves s s'"
    using assms rd e1 evolves_trans [OF e1 evolves_printk]
    by (cases x) (auto simp: cr50_tis_i2c_status_def)
  show "status_events (TPM_STS K (locality chip)) st (events_since s s')"
  proof (cases x)
    case None
    with assms rd have "st = 0" "s' = printk ''cr50_tis_i2c_status: Failed to read status'' s1"
      by (auto simp: cr50_tis_i2c_status_def)
    with None ev1 events_since_trans [OF e1 evolves_printk] show ?thesis
      by (auto simp: status_events_def)
  next
    case (Some buf)
    with assms rd have "st = buf ! 0" "s' = s1"
      by (auto simp: cr50_tis_i2c_status_def)
    with Some ev1 show ?thesis
      by (auto simp: status_events_def)
  qed
qed

lemma ready_run:
  shows "evolves s (cr50_tis_i2c_ready K chip s)"
    and "ready_write_events (TPM_STS K (locality chip)) (TPM_STS_COMMAND_READY K)
           (events_since s (cr50_tis_i2c_ready K chip s))"
proof -
  obtain ok s1 where
    w: "iic_tpm_write (TPM_STS K (locality chip)) [TPM_STS_COMMAND_READY K, 0, 0, 0] s = (ok, s1)"
    by force
  note e1 = iic_tpm_write_evolves [OF w] and ev1 = iic_tpm_write_events [OF w]
  have r: "cr50_tis_i2c_ready K chip s = mdelay CR50_TIMEOUT_SHORT_MS s1"
    using w by (simp add: cr50_tis_i2c_ready_def)
  show "evolves s (cr50_tis_i2c_ready K chip s)"
    unfolding r by (rule evolves_trans [OF e1 evolves_mdelay])
  show "ready_write_events (TPM_STS K (locality chip)) (TPM_STS_COMMAND_READY K)
           (events_since s (cr50_tis_i2c_ready K chip s))"
    unfolding r ready_write_events_def
    using ev1 events_since_trans [OF e1 evolves_mdelay, of CR50_TIMEOUT_SHORT_MS]
    by auto
qed

lemma ready_loop_run:
  "cr50_tis_i2c_send_ready_loop K chip sw s = (r, s') \<Longrightarrow>
     evolves s s' \<and>
     ready_events (TPM_STS K (locality chip)) (TPM_STS_COMMAND_READY K) r (events_since s s') \<and>
     (\<not> r \<longrightarrow> sw \<le> clock s')"
proof (induction K chip sw s rule: cr50_tis_i2c_send_ready_loop.induct)
  case (1 K chip sw s)
  let ?a = "TPM_STS K (locality chip)" and ?rdy = "TPM_STS_COMMAND_READY K"
  obtain st s1 where st: "cr50_tis_i2c_status K chip s = (st, s1)"
    by force
  note e1 = status_run(1) [OF st] and ev1 = status_run(2) [OF st]
  show ?case
  proof (cases "st AND ?rdy \<noteq> 0")
    case True
    with st "1.prems" have "r" "s' = s1"
      by (auto simp: cr50_tis_i2c_send_ready_loop.simps [of K chip sw s])
    with e1 ev1 True ready_events.ready_found [where a = ?a and rdy = ?rdy and st = st
        and ev = "events_since s s1"]
    show ?thesis by simp
  next
    case nr: False
    show ?thesis
    proof (cases "stopwatch_expired sw s1")
      case True
      let ?s2 = "printk ''cr50_tis_i2c_send: Command ready timeout'' s1"
      from True nr st "1.prems" have out: "\<not> r" "s' = ?s2"
        by (auto simp: cr50_tis_i2c_send_ready_loop.simps [of K chip sw s])
      have "events_since s ?s2 =
              events_since s s1 @ [Printk ''cr50_tis_i2c_send: Command ready timeout'']"
        using events_since_trans [OF e1 evolves_printk] by simp
      with nr ev1 ready_events.ready_timeout [where a = ?a and rdy = ?rdy and st = st
          and ev = "events_since s s1"]
      have "ready_events ?a ?rdy False (events_since s ?s2)" by simp
      with out True evolves_trans [OF e1 evolves_printk] show ?thesis
        by (simp add: stopwatch_expired_def)
    next
      case False
      let ?s2 = "cr50_tis_i2c_ready K chip s1"
      from False nr st "1.prems"
      have run: "cr50_tis_i2c_send_ready_loop K chip sw ?s2 = (r, s')"
        by (auto simp: cr50_tis_i2c_send_ready_loop.simps [of K chip sw s])
      from "1.IH" [OF st [symmetric] nr False run]
      have ih: "evolves ?s2 s'" "ready_events ?a ?rdy r (events_since ?s2 s')"
        "\<not> r \<longrightarrow> sw \<le> clock s'"
        by simp_all
      note e2 = ready_run(1) [of s1 K chip] and ev2 = ready_run(2) [of K chip s1]
      have e02: "evolves s ?s2" by (rule evolves_trans [OF e1 e2])
      have "events_since s s' = events_since s s1 @ events_since s1 ?s2 @ events_since ?s2 s'"
        using events_since_trans [OF e02 ih(1)] events_since_trans [OF e1 e2] by simp
      with nr ev1 ev2 ih(2) ready_events.ready_retry [where a = ?a and rdy = ?rdy and st = st
          and ev = "events_since s s1" and evw = "events_since s1 ?s2" and r = r
          and d = "events_since ?s2 s'"]
      have "ready_events ?a ?rdy r (events_since s s')" by simp
      with ih evolves_trans [OF e02 ih(1)] show ?thesis by simp
    qed
  qed
qed






section \<open>How long the polling loops take\<close>



















section \<open>Initialisation\<close>

lemma iic_tpm_write_sent:
  "dev_addr (g_tpm_dev s) \<noteq> 0 \<Longrightarrow> length d \<le> CR50_MAX_BUFSIZE \<Longrightarrow>
     iic_tpm_write a d s = (ok, s') \<Longrightarrow>
     events_since s s' =
       I2C_write (a # d) ok #
         (if ok then [Mdelay CR50_TIMEOUT_SHORT_MS]
          else [Printk ''iic_tpm_write: Error writing to TPM''])"
  by (auto simp: iic_tpm_write_def i2c_write_raw_def mdelay_def printk_def Let_def
        events_since_def split: if_splits)

lemma release_locality_forced:
  assumes "iic_tpm_read (TPM_ACCESS K loc) 1 s = (Some bs, s1)"
  shows "\<exists>ok. events_since s1 (release_locality K chip loc True s) =
           I2C_write [TPM_ACCESS K loc, TPM_ACCESS_ACTIVE_LOCALITY K] ok #
             (if ok then [Mdelay CR50_TIMEOUT_SHORT_MS]
              else [Printk ''iic_tpm_write: Error writing to TPM''])"
proof -
  have a: "dev_addr (g_tpm_dev s1) \<noteq> 0"
    using iic_tpm_read_Some(1) [OF assms] iic_tpm_read_evolves [OF assms]
    by (simp add: evolves_def)
  obtain ok s2 where
    w: "iic_tpm_write (TPM_ACCESS K loc) [TPM_ACCESS_ACTIVE_LOCALITY K] s1 = (ok, s2)"
    by force
  from iic_tpm_write_sent [OF a _ w]
  have "events_since s1 s2 =
          I2C_write [TPM_ACCESS K loc, TPM_ACCESS_ACTIVE_LOCALITY K] ok #
            (if ok then [Mdelay CR50_TIMEOUT_SHORT_MS]
             else [Printk ''iic_tpm_write: Error writing to TPM''])"
    by (simp add: CR50_MAX_BUFSIZE_def)
  with assms w show ?thesis
    by (auto simp: release_locality_def)
qed

text \<open>
  C9. tpm_vendor_init with a device address that is not zero, once request_locality has
  returned 0 for locality 0 and the four bytes of the identity register were read: when
  they are the identity of the cr50, it returns 0 with the chip marked open and locality
  0 recorded, the last check of the access register having shown it active and valid,
  and nothing but the log line follows the read. Otherwise it returns -1 after
  release_locality for locality 0 with force set, whose write of the active-locality bit
  goes out when its read of the access register succeeds.
\<close>

theorem tpm_vendor_init_identity:
  assumes "dev_address \<noteq> 0"
    and "s0 = s\<lparr>g_tpm_dev := (g_tpm_dev s)\<lparr>dev_bus := bus, dev_addr := dev_address\<rparr>\<rparr>"
    and "request_locality K ((cr50_vendor_init K chip)\<lparr>irq := 0\<rparr>) 0 s0 = ((0, chip1), s1)"
    and "iic_tpm_read (TPM_DID_VID K 0) 4 s1 = (Some bs, s2)"
  shows "if vendor_of_bytes bs = CR50_DID_VID
         then tpm_vendor_init K chip bus dev_address s =
                ((0, chip1\<lparr>is_open := 1\<rparr>), printk ''cr50 TPM'' s2) \<and>
              locality chip1 = 0 \<and>
              (\<exists>bs0 d0. events_since s0 s1 = d0 @ [I2C_read 1 (Some bs0)] \<and>
                        locality_owned K bs0)
         else tpm_vendor_init K chip bus dev_address s =
                ((-1, chip1),
                 release_locality K chip1 0 True (printk ''Vendor ID not recognized'' s2)) \<and>
              (\<forall>bs1 s3.
                 iic_tpm_read (TPM_ACCESS K 0) 1 (printk ''Vendor ID not recognized'' s2) =
                   (Some bs1, s3) \<longrightarrow>
                 (\<exists>ok. I2C_write [TPM_ACCESS K 0, TPM_ACCESS_ACTIVE_LOCALITY K] ok \<in>
                    set (events_since s3 (snd (tpm_vendor_init K chip bus dev_address s)))))"
proof -
  from request_locality_run [OF assms(3)]
  have own: "chip1 = (cr50_vendor_init K chip)\<lparr>irq := 0, locality := 0\<rparr>"
    "\<exists>bs0 d0. events_since s0 s1 = d0 @ [I2C_read 1 (Some bs0)] \<and> locality_owned K bs0"
    by auto
  show ?thesis
  proof (cases "vendor_of_bytes bs = CR50_DID_VID")
    case True
    with assms own show ?thesis
      by (simp add: tpm_vendor_init_def Let_def)
  next
    case False
    have run: "tpm_vendor_init K chip bus dev_address s =
                ((-1, chip1),
                 release_locality K chip1 0 True (printk ''Vendor ID not recognized'' s2))"
      using False assms by (simp add: tpm_vendor_init_def Let_def)
    have "\<exists>ok. I2C_write [TPM_ACCESS K 0, TPM_ACCESS_ACTIVE_LOCALITY K] ok \<in>
             set (events_since s3 (snd (tpm_vendor_init K chip bus dev_address s)))"
      if "iic_tpm_read (TPM_ACCESS K 0) 1 (printk ''Vendor ID not recognized'' s2) =
            (Some bs1, s3)" for bs1 s3
      using release_locality_forced [OF that, of chip1] run by auto
    with False run show ?thesis by simp
  qed
qed

theorem tpm_vendor_init_identity_witness:
  "tpm_vendor_init tis_h chip0 0 0x50
     (world0 [ack [], ack [0xa0], ack [], ack [0xe0, 0x1a, 0x28, 0]]) =
     ((0, (cr50_vendor_init tis_h chip0)\<lparr>is_open := 1\<rparr>),
      (world0 [ack [], ack [0xa0], ack [], ack [0xe0, 0x1a, 0x28, 0]])
        \<lparr>clock := 4, pos := 4,
         trace := [I2C_write [0] True, Mdelay 2, I2C_read 1 (Some [0xa0]),
                   I2C_write [6] True, Mdelay 2, I2C_read 4 (Some [0xe0, 0x1a, 0x28, 0]),
                   Printk ''cr50 TPM'']\<rparr>) \<and>
   fst (fst (tpm_vendor_init tis_h chip0 0 0x50
     (world0 [ack [], ack [0xa0], ack [], ack [0xe1, 0x1a, 0x28, 0], ack [], ack [0xa0],
              ack []]))) = -1 \<and>
   trace (snd (tpm_vendor_init tis_h chip0 0 0x50
     (world0 [ack [], ack [0xa0], ack [], ack [0xe1, 0x1a, 0x28, 0], ack [], ack [0xa0],
              ack []]))) =
     [I2C_write [0] True, Mdelay 2, I2C_read 1 (Some [0xa0]),
      I2C_write [6] True, Mdelay 2, I2C_read 4 (Some [0xe1, 0x1a, 0x28, 0]),
      Printk ''Vendor ID not recognized'',
      I2C_write [0] True, Mdelay 2, I2C_read 1 (Some [0xa0]),
      I2C_write [0, 0x20] True, Mdelay 2]"
proof -
  let ?w = "world0 [ack [], ack [0xa0], ack [], ack [0xe0, 0x1a, 0x28, 0]]"
  let ?c = "(cr50_vendor_init tis_h chip0)\<lparr>irq := 0\<rparr>"
  have 1: "?w = ?w\<lparr>g_tpm_dev := (g_tpm_dev ?w)\<lparr>dev_bus := 0, dev_addr := 0x50\<rparr>\<rparr>"
    by (simp add: world0_def)
  have 2: "request_locality tis_h ?c 0 ?w =
             ((0, snd (fst (request_locality tis_h ?c 0 ?w))), snd (request_locality tis_h ?c 0 ?w))"
    by (simp add: request_locality_def check_locality_def run_defs cr50_vendor_init_def)
  have 3: "iic_tpm_read (TPM_DID_VID tis_h 0) 4 (snd (request_locality tis_h ?c 0 ?w)) =
             (Some [0xe0, 0x1a, 0x28, 0],
              snd (iic_tpm_read (TPM_DID_VID tis_h 0) 4 (snd (request_locality tis_h ?c 0 ?w))))"
    by (simp add: request_locality_def check_locality_def run_defs cr50_vendor_init_def)
  have 4: "(0x50 :: nat) \<noteq> 0" by simp
  show ?thesis
    using tpm_vendor_init_identity [OF 4 1 2 3]
    by (simp add: tpm_vendor_init_def request_locality_def check_locality_def
          release_locality_def run_defs cr50_vendor_init_def vendor_of_bytes_def
          CR50_DID_VID_def)
qed

section \<open>Receive\<close>

text \<open>
  C7. When the length decoded from the header of the first chunk is larger than the
  buffer length given, cr50_tis_i2c_recv returns -1 right after the read of the first
  chunk: it logs the message, and does no transfer on the bus and no delay after that
  read.
\<close>

theorem recv_too_much_data:
  assumes "TPM_HEADER_SIZE K \<le> buf_len"
    and "cr50_wait_burst_status K chip (TPM_STS_VALID K) s = (Some (status, burstcnt), s1)"
    and "status AND TPM_STS_DATA_AVAIL K \<noteq> 0"
    and "iic_tpm_read (TPM_DATA_FIFO K (locality chip)) burstcnt s1 = (Some d, s2)"
    and "buf_len < read_be32 (drop (TPM_RSP_SIZE_BYTE K) (write_at buf 0 d))"
  shows "fst (fst (cr50_tis_i2c_recv K chip buf buf_len s)) = -1 \<and>
         events_since s2 (snd (cr50_tis_i2c_recv K chip buf buf_len s)) =
           [Printk ''cr50_tis_i2c_recv: Too much data''] \<and>
         pos (snd (cr50_tis_i2c_recv K chip buf buf_len s)) = pos s2 \<and>
         clock (snd (cr50_tis_i2c_recv K chip buf buf_len s)) = clock s2"
  using assms
  by (simp add: cr50_tis_i2c_recv_def Let_def printk_def events_since_def)

theorem recv_too_much_data_witness:
  "fst (fst (cr50_tis_i2c_recv tis_h chip0 (replicate 16 0) 16
       (world0 [ack [], ack [0x90, 10, 0, 0], ack [], ack [0x80, 1, 0, 0, 0, 200, 0, 0, 0, 0]]))) = -1 \<and>
   trace (snd (cr50_tis_i2c_recv tis_h chip0 (replicate 16 0) 16
       (world0 [ack [], ack [0x90, 10, 0, 0], ack [], ack [0x80, 1, 0, 0, 0, 200, 0, 0, 0, 0]]))) =
     [I2C_write [1] True, Mdelay 2, I2C_read 4 (Some [0x90, 10, 0, 0]),
      I2C_write [5] True, Mdelay 2, I2C_read 10 (Some [0x80, 1, 0, 0, 0, 200, 0, 0, 0, 0]),
      Printk ''cr50_tis_i2c_recv: Too much data''] \<and>
   pos (snd (cr50_tis_i2c_recv tis_h chip0 (replicate 16 0) 16
       (world0 [ack [], ack [0x90, 10, 0, 0], ack [], ack [0x80, 1, 0, 0, 0, 200, 0, 0, 0, 0]]))) = 4"
proof -
  let ?w = "world0 [ack [], ack [0x90, 10, 0, 0], ack [], ack [0x80, 1, 0, 0, 0, 200, 0, 0, 0, 0]]"
  let ?w1 = "snd (cr50_wait_burst_status tis_h chip0 (TPM_STS_VALID tis_h) ?w)"
  let ?w2 = "snd (iic_tpm_read (TPM_DATA_FIFO tis_h (locality chip0)) 10 ?w1)"
  have 1: "TPM_HEADER_SIZE tis_h \<le> 16" by (simp add: tis_h_def)
  have 2: "cr50_wait_burst_status tis_h chip0 (TPM_STS_VALID tis_h) ?w = (Some (0x90, 10), ?w1)"
    by (simp add: cr50_wait_burst_status_def cr50_wait_burst_status_loop.simps run_defs
          read_le16_def)
  have 3: "(0x90 :: byte) AND TPM_STS_DATA_AVAIL tis_h \<noteq> 0" by (simp add: tis_h_def)
  have 4: "iic_tpm_read (TPM_DATA_FIFO tis_h (locality chip0)) 10 ?w1 =
             (Some [0x80, 1, 0, 0, 0, 200, 0, 0, 0, 0], ?w2)"
    by (simp add: cr50_wait_burst_status_def cr50_wait_burst_status_loop.simps run_defs
          read_le16_def)
  have 5: "16 < read_be32 (drop (TPM_RSP_SIZE_BYTE tis_h)
                    (write_at (replicate 16 0) 0 [0x80, 1, 0, 0, 0, 200, 0, 0, 0, 0]))"
    by (simp add: tis_h_def write_at_def read_be32_def)
  show ?thesis
    using recv_too_much_data [OF 1 2 3 4 5]
    by (simp add: cr50_tis_i2c_recv_def cr50_wait_burst_status_def
          cr50_wait_burst_status_loop.simps run_defs read_le16_def write_at_def read_be32_def)
qed

section \<open>What was read from a register\<close>

lemma read_log_append:
  "read_log a sel b (ev1 @ ev2) =
     read_log a sel b ev1 @
       read_log a (fst (read_end a sel b ev1)) (snd (read_end a sel b ev1)) ev2"
  by (induction a sel b ev1 rule: read_log.induct) auto

lemma read_end_append:
  "read_end a sel b (ev1 @ ev2) =
     read_end a (fst (read_end a sel b ev1)) (snd (read_end a sel b ev1)) ev2"
  by (induction a sel b ev1 rule: read_end.induct) auto

lemma later_reads_sum: "later_reads_ok missing rs \<Longrightarrow> sum_list (map snd rs) \<le> missing"
  by (induction missing rs rule: later_reads_ok.induct) auto

lemma read_events_log:
  "read_events a' n x ev \<Longrightarrow>
     read_log a sel b ev = (if a' = a \<and> x \<noteq> None then [(b, n)] else [])"
  by (auto simp: read_events_def split: option.splits)

lemma read_events_end:
  "read_events a' n (Some bs) ev \<Longrightarrow>
     read_end a sel b ev = ([a'], if a' = a then b else read_le16 (drop 1 bs))"
  by (auto simp: read_events_def)

lemma read_events_end_None:
  "read_events a' n None ev \<Longrightarrow> snd (read_end a sel b ev) = b"
  by (auto simp: read_events_def)

lemma wait_events_log:
  "wait_events a' msk r ev \<Longrightarrow> a' \<noteq> a \<Longrightarrow>
     read_log a sel b ev = [] \<and>
     (\<forall>st bc. r = Some (st, bc) \<longrightarrow> read_end a sel b ev = ([a'], bc))"
proof (induction arbitrary: sel b rule: wait_events.induct)
  case wait_timeout
  show ?case by simp
next
  case (wait_found buf ev)
  then show ?case by (simp add: read_events_log read_events_end)
next
  case (wait_read_failed ev r d)
  then show ?case
    by (simp add: read_log_append read_end_append read_events_log)
next
  case (wait_not_ok buf ev r d)
  then show ?case
    by (simp add: read_log_append read_end_append read_events_log)
qed

lemma recv_loop_run:
  "cr50_tis_i2c_recv_loop K chip buf current expected s = ((ok, buf', current'), s') \<Longrightarrow>
   TPM_STS K (locality chip) \<noteq> TPM_DATA_FIFO K (locality chip) \<Longrightarrow>
     evolves s s' \<and> current \<le> current' \<and>
     (ok \<longrightarrow> current' = max current expected) \<and>
     later_reads_ok (expected - current)
       (read_log (TPM_DATA_FIFO K (locality chip)) sel b (events_since s s')) \<and>
     sum_list (map snd
       (read_log (TPM_DATA_FIFO K (locality chip)) sel b (events_since s s'))) =
       current' - current"
proof (induction K chip buf current expected s arbitrary: sel b
         rule: cr50_tis_i2c_recv_loop.induct)
  case (1 K chip buf current expected s)
  let ?f = "TPM_DATA_FIFO K (locality chip)" and ?a = "TPM_STS K (locality chip)"
  note simps = cr50_tis_i2c_recv_loop.simps [of K chip buf current expected s]
  note ne = "1.prems"(2)
  show ?case
  proof (cases "current < expected")
    case False
    with "1.prems" show ?thesis by (simp add: simps)
  next
    case lt: True
    obtain x s1 where wt: "cr50_wait_burst_status K chip (TPM_STS_VALID K) s = (x, s1)"
      by force
    note e1 = wait_run(1) [OF wt] and ev1 = wait_run(2) [OF wt]
    note w1 = wait_events_log [OF ev1 ne, of sel b]
    show ?thesis
    proof (cases x)
      case None
      with lt wt "1.prems" have "s' = s1" "current' = current" "\<not> ok"
        by (simp_all add: simps)
      with e1 w1 show ?thesis by simp
    next
      case (Some p)
      obtain status burstcnt where p: "p = (status, burstcnt)" by (cases p)
      from wait_Some [of K chip "TPM_STS_VALID K" s status burstcnt s1] wt Some p
      have bc: "0 < burstcnt" "burstcnt \<le> 63" by (simp_all add: CR50_MAX_BUFSIZE_def)
      from w1 Some p have st1: "read_end ?f sel b (events_since s s1) = ([?a], burstcnt)"
        by simp
      show ?thesis
      proof (cases "status AND TPM_STS_DATA_AVAIL K = 0")
        case True
        let ?s2 = "printk ''cr50_tis_i2c_recv: Data not available'' s1"
        from True lt wt Some p "1.prems" have out: "s' = ?s2" "current' = current" "\<not> ok"
          by (simp_all add: simps)
        have "events_since s ?s2 =
                events_since s s1 @ [Printk ''cr50_tis_i2c_recv: Data not available'']"
          using events_since_trans [OF e1 evolves_printk] by simp
        with w1 out evolves_trans [OF e1 evolves_printk] show ?thesis
          by (simp add: read_log_append)
      next
        case av: False
        let ?len = "min burstcnt (expected - current)"
        obtain y s2 where rd: "iic_tpm_read ?f ?len s1 = (y, s2)"
          by force
        note e2 = iic_tpm_read_evolves [OF rd] and ev2 = iic_tpm_read_events [OF rd]
        have e02: "evolves s s2" by (rule evolves_trans [OF e1 e2])
        show ?thesis
        proof (cases y)
          case None
          let ?s3 = "printk ''cr50_tis_i2c_recv: Read failed'' s2"
          from None av lt wt Some p rd "1.prems"
          have out: "s' = ?s3" "current' = current" "\<not> ok"
            by (simp_all add: simps Let_def)
          have evs: "events_since s ?s3 =
                  events_since s s1 @ events_since s1 s2 @
                    [Printk ''cr50_tis_i2c_recv: Read failed'']"
            using events_since_trans [OF e02 evolves_printk] events_since_trans [OF e1 e2]
            by simp
          have "read_log ?f sel b (events_since s ?s3) = []"
            unfolding evs using w1 None read_events_log [OF ev2, of ?f]
            by (simp add: read_log_append)
          with out evolves_trans [OF e02 evolves_printk] show ?thesis
            by simp
        next
          case (Some d)
          from Some av lt wt \<open>x = Some p\<close> p rd "1.prems"
          have run: "cr50_tis_i2c_recv_loop K chip (write_at buf current d) (current + ?len)
                       expected s2 = ((ok, buf', current'), s')"
            by (simp add: simps Let_def)
          from "1.IH" [OF lt wt [symmetric] \<open>x = Some p\<close> p [symmetric] av refl rd [symmetric]
              Some run ne, of "[?f]" burstcnt]
          have ih: "evolves s2 s'" "current + ?len \<le> current'"
            "ok \<longrightarrow> current' = max (current + ?len) expected"
            "later_reads_ok (expected - (current + ?len))
               (read_log ?f [?f] burstcnt (events_since s2 s'))"
            "sum_list (map snd (read_log ?f [?f] burstcnt (events_since s2 s'))) =
               current' - (current + ?len)"
            by simp_all
          have evs: "events_since s s' =
                  events_since s s1 @ events_since s1 s2 @ events_since s2 s'"
            using events_since_trans [OF e02 ih(1)] events_since_trans [OF e1 e2] by simp
          from ev2 Some have ev2': "read_events ?f ?len (Some d) (events_since s1 s2)"
            by simp
          have log: "read_log ?f sel b (events_since s s') =
                  (burstcnt, ?len) # read_log ?f [?f] burstcnt (events_since s2 s')"
            unfolding evs
            using w1 st1 read_events_log [OF ev2', of ?f "[?a]" burstcnt]
              read_events_end [OF ev2', of ?f "[?a]" burstcnt]
            by (simp add: read_log_append)
          have "current + ?len \<le> expected" using lt by simp
          then have "max (current + ?len) expected = max current expected"
            by simp
          with ih log lt bc evolves_trans [OF e02 ih(1)] show ?thesis
            by auto
        qed
      qed
    qed
  qed
qed

lemma int_of_size_t_small:
  assumes "n < 2 ^ 31"
  shows "int_of_size_t n = int n"
proof -
  have "n < 2 ^ 32" using assms by simp
  then have u: "uint (word_of_nat n :: 32 word) = int n"
    by (simp add: unsigned_of_nat take_bit_nat_eq_self)
  have "- (2 ^ 31) \<le> int n" by simp
  moreover have "int n < 2 ^ 31" using assms by (simp flip: of_nat_less_iff)
  ultimately have "signed_take_bit 31 (int n) = int n"
    by (simp add: signed_take_bit_int_eq_self)
  with u show ?thesis
    by (simp add: int_of_size_t_def sint_uint)
qed

text \<open>
  C1, as amended. In every cr50_tis_i2c_recv, the first read from the data FIFO takes
  the whole first burst count \<open>b1\<close>, whatever length the header in those bytes then
  declares, and every later read takes the smaller of the burst count just read from the
  status register and the bytes still missing up to the declared length. So the bytes
  read never go past the larger of \<open>b1\<close> and the declared length; and the value returned
  on success is the larger of the two, which is the declared length whenever \<open>b1\<close> does
  not exceed it (the driver compares \<open>b1\<close> neither with the declared length nor with the
  length of the buffer). A call that fails returns -1.
\<close>

theorem recv_bytes_read:
  assumes "cr50_tis_i2c_recv K chip buf buf_len s = ((r, buf'), s')"
    and "buf_len < 2 ^ 31"
    and "TPM_STS K (locality chip) \<noteq> TPM_DATA_FIFO K (locality chip)"
  shows "(r = -1 \<and> read_log (TPM_DATA_FIFO K (locality chip)) [] 0 (events_since s s') = []) \<or>
         (\<exists>status b1 s1 d1 s2 expected rest.
            cr50_wait_burst_status K chip (TPM_STS_VALID K) s = (Some (status, b1), s1) \<and>
            iic_tpm_read (TPM_DATA_FIFO K (locality chip)) b1 s1 = (Some d1, s2) \<and>
            expected = read_be32 (drop (TPM_RSP_SIZE_BYTE K) (write_at buf 0 d1)) \<and>
            read_log (TPM_DATA_FIFO K (locality chip)) [] 0 (events_since s s') =
              (b1, b1) # rest \<and>
            later_reads_ok (expected - b1) rest \<and>
            b1 + sum_list (map snd rest) \<le> max b1 expected \<and>
            (if 0 \<le> r
             then expected \<le> buf_len \<and> b1 + sum_list (map snd rest) = max b1 expected \<and>
                  r = int (max b1 expected)
             else r = -1))"
proof -
  let ?f = "TPM_DATA_FIFO K (locality chip)" and ?v = "TPM_STS_VALID K"
  let ?a = "TPM_STS K (locality chip)"
  note run = assms(1) and ne = assms(3)
  note defs = cr50_tis_i2c_recv_def Let_def
  show ?thesis
  proof (cases "buf_len < TPM_HEADER_SIZE K")
    case True
    with run show ?thesis by (simp add: defs)
  next
    case hs: False
    obtain x s1 where wt: "cr50_wait_burst_status K chip ?v s = (x, s1)"
      by force
    note e1 = wait_run(1) [OF wt] and ev1 = wait_run(2) [OF wt]
    note w1 = wait_events_log [OF ev1 ne, of "[]" 0]
    show ?thesis
    proof (cases x)
      case None
      with run hs wt have "r = -1" "s' = s1" by (simp_all add: defs)
      with w1 show ?thesis by simp
    next
      case (Some p)
      obtain status b1 where p: "p = (status, b1)" by (cases p)
      from wait_Some [of K chip ?v s status b1 s1] wt Some p
      have b1: "0 < b1" "b1 \<le> 63" by (simp_all add: CR50_MAX_BUFSIZE_def)
      from w1 Some p have st1: "read_end ?f [] 0 (events_since s s1) = ([?a], b1)"
        by simp
      show ?thesis
      proof (cases "status AND TPM_STS_DATA_AVAIL K = 0")
        case True
        let ?s2 = "printk ''cr50_tis_i2c_recv: First chunk not available'' s1"
        from True run hs wt Some p have out: "r = -1" "s' = ?s2" by (simp_all add: defs)
        have "events_since s ?s2 =
                events_since s s1 @ [Printk ''cr50_tis_i2c_recv: First chunk not available'']"
          using events_since_trans [OF e1 evolves_printk] by simp
        with w1 out show ?thesis by (simp add: read_log_append)
      next
        case av: False
        obtain y s2 where rd: "iic_tpm_read ?f b1 s1 = (y, s2)"
          by force
        note e2 = iic_tpm_read_evolves [OF rd] and ev2 = iic_tpm_read_events [OF rd]
        have e02: "evolves s s2" by (rule evolves_trans [OF e1 e2])
        have ev02: "events_since s s2 = events_since s s1 @ events_since s1 s2"
          by (rule events_since_trans [OF e1 e2])
        show ?thesis
        proof (cases y)
          case None
          let ?s3 = "printk ''cr50_tis_i2c_recv: Read failed'' s2"
          from None av run hs wt Some p rd have out: "r = -1" "s' = ?s3"
            by (simp_all add: defs)
          have "events_since s ?s3 =
                  events_since s s1 @ events_since s1 s2 @
                    [Printk ''cr50_tis_i2c_recv: Read failed'']"
            using events_since_trans [OF e02 evolves_printk] ev02 by simp
          then have "read_log ?f [] 0 (events_since s ?s3) = []"
            using w1 None read_events_log [OF ev2, of ?f] by (simp add: read_log_append)
          with out show ?thesis by simp
        next
          case sd: (Some d1)
          from ev2 sd have ev2': "read_events ?f b1 (Some d1) (events_since s1 s2)"
            by simp
          have log2: "read_log ?f [] 0 (events_since s s2) = [(b1, b1)]"
            and st2: "read_end ?f [] 0 (events_since s s2) = ([?f], b1)"
            unfolding ev02
            using w1 st1 read_events_log [OF ev2', of ?f "[?a]" b1]
              read_events_end [OF ev2', of ?f "[?a]" b1]
            by (simp_all add: read_log_append read_end_append)
          define buf1 where "buf1 = write_at buf 0 d1"
          define expected where "expected = read_be32 (drop (TPM_RSP_SIZE_BYTE K) buf1)"
          have tail: ?thesis
            if e: "evolves s2 s'"
              and ok: "later_reads_ok (expected - b1) (read_log ?f [?f] b1 (events_since s2 s'))"
              and res: "if 0 \<le> r
                        then expected \<le> buf_len \<and>
                             b1 + sum_list (map snd (read_log ?f [?f] b1 (events_since s2 s'))) =
                               max b1 expected \<and>
                             r = int (max b1 expected)
                        else r = -1"
          proof -
            have "events_since s s' = events_since s s2 @ events_since s2 s'"
              by (rule events_since_trans [OF e02 e])
            then have "read_log ?f [] 0 (events_since s s') =
                         (b1, b1) # read_log ?f [?f] b1 (events_since s2 s')"
              using log2 st2 by (simp add: read_log_append)
            moreover from later_reads_sum [OF ok]
            have "b1 + sum_list (map snd (read_log ?f [?f] b1 (events_since s2 s'))) \<le>
                    max b1 expected"
              by simp
            ultimately show ?thesis
              using wt Some p rd sd ok res
              by (intro disjI2 exI [of _ status] exI [of _ b1] exI [of _ s1] exI [of _ d1]
                    exI [of _ s2] exI [of _ expected]
                    exI [of _ "read_log ?f [?f] b1 (events_since s2 s')"])
                 (simp add: expected_def buf1_def)
          qed
          show ?thesis
          proof (cases "buf_len < expected")
            case True
            let ?s3 = "printk ''cr50_tis_i2c_recv: Too much data'' s2"
            from True av run hs wt Some p rd sd have out: "r = -1" "s' = ?s3"
              by (simp_all add: defs expected_def buf1_def)
            show ?thesis
              by (rule tail) (simp_all add: out)
          next
            case le: False
            obtain ok buf2 current s3 where
              lp: "cr50_tis_i2c_recv_loop K chip buf1 b1 expected s2 = ((ok, buf2, current), s3)"
              by (metis surj_pair)
            from recv_loop_run [OF lp ne, of "[?f]" b1]
            have l: "evolves s2 s3" "b1 \<le> current" "ok \<longrightarrow> current = max b1 expected"
              "later_reads_ok (expected - b1) (read_log ?f [?f] b1 (events_since s2 s3))"
              "sum_list (map snd (read_log ?f [?f] b1 (events_since s2 s3))) = current - b1"
              by simp_all
            have same: "read_log ?f [?f] b1 (events_since s2 s4) =
                          read_log ?f [?f] b1 (events_since s2 s3)"
              if "evolves s3 s4"
                and "\<And>sel b. read_log ?f sel b (events_since s3 s4) = []" for s4
              using events_since_trans [OF l(1) that(1)] that(2)
              by (simp add: read_log_append)
            show ?thesis
            proof (cases ok)
              case False
              with le av run hs wt Some p rd sd lp have out: "r = -1" "s' = s3"
                by (simp_all add: defs expected_def buf1_def)
              show ?thesis
                by (rule tail) (simp_all add: out l)
            next
              case ok: True
              obtain z s4 where wt2: "cr50_wait_burst_status K chip ?v s3 = (z, s4)"
                by force
              note e4 = wait_run(1) [OF wt2] and ev4 = wait_run(2) [OF wt2]
              have q4: "read_log ?f sel b (events_since s3 s4) = []" for sel b
                using wait_events_log [OF ev4 ne, of sel b] by simp
              note same4 = same [OF e4 q4]
              have cur: "current = max b1 expected" using l(3) ok by simp
              show ?thesis
              proof (cases z)
                case None
                with ok le av run hs wt Some p rd sd lp wt2 have out: "r = -1" "s' = s4"
                  by (simp_all add: defs expected_def buf1_def)
                show ?thesis
                  by (rule tail) (simp_all add: out l same4 evolves_trans [OF l(1) e4])
              next
                case sz: (Some q)
                obtain status2 burstcnt2 where q: "q = (status2, burstcnt2)" by (cases q)
                show ?thesis
                proof (cases "status2 AND TPM_STS_DATA_AVAIL K \<noteq> 0")
                  case True
                  let ?s5 = "printk ''cr50_tis_i2c_recv: Data still available'' s4"
                  from True ok le av run hs wt Some p rd sd lp wt2 sz q
                  have out: "r = -1" "s' = ?s5"
                    by (simp_all add: defs expected_def buf1_def)
                  have e5: "evolves s3 ?s5" by (rule evolves_trans [OF e4 evolves_printk])
                  have q5: "read_log ?f sel b (events_since s3 ?s5) = []" for sel b
                    using events_since_trans [OF e4 evolves_printk] q4
                    by (simp add: read_log_append)
                  show ?thesis
                    by (rule tail)
                       (simp_all add: out l same [OF e5 q5] evolves_trans [OF l(1) e5])
                next
                  case False
                  with ok le av run hs wt Some p rd sd lp wt2 sz q
                  have out: "r = int_of_size_t current" "s' = s4"
                    by (simp_all add: defs expected_def buf1_def)
                  have "current < 2 ^ 31"
                    using cur le b1 assms(2) by simp
                  then have r: "r = int (max b1 expected)"
                    using out cur by (simp add: int_of_size_t_small)
                  show ?thesis
                  proof (rule tail)
                    show "evolves s2 s'"
                      using out evolves_trans [OF l(1) e4] by simp
                    show "later_reads_ok (expected - b1) (read_log ?f [?f] b1 (events_since s2 s'))"
                      using out same4 l(4) by simp
                    show "if 0 \<le> r
                          then expected \<le> buf_len \<and>
                               b1 + sum_list (map snd (read_log ?f [?f] b1 (events_since s2 s'))) =
                                 max b1 expected \<and>
                               r = int (max b1 expected)
                          else r = -1"
                      using r le out same4 l(2,5) cur by simp
                  qed
                qed
              qed
            qed
          qed
        qed
      qed
    qed
  qed
qed

lemmas recv_run_defs =
  cr50_tis_i2c_recv_def cr50_tis_i2c_recv_loop.simps cr50_wait_burst_status_def
  cr50_wait_burst_status_loop.simps read_le16_def read_be32_def write_at_def
  int_of_size_t_small

theorem recv_bytes_read_witness:
  "fst (fst (cr50_tis_i2c_recv tis_h chip0 (replicate 32 0) 32
       (world0 [ack [], ack [0x90, 10, 0, 0], ack [], ack [0x80, 1, 0, 0, 0, 20, 0, 0, 0, 0],
                ack [], ack [0x90, 4, 0, 0], ack [], ack [1, 2, 3, 4],
                ack [], ack [0x90, 63, 0, 0], ack [], ack [5, 6, 7, 8, 9, 10],
                ack [], ack [0x80, 5, 0, 0]]))) = 20 \<and>
   read_log (TPM_DATA_FIFO tis_h 0) [] 0
     (trace (snd (cr50_tis_i2c_recv tis_h chip0 (replicate 32 0) 32
       (world0 [ack [], ack [0x90, 10, 0, 0], ack [], ack [0x80, 1, 0, 0, 0, 20, 0, 0, 0, 0],
                ack [], ack [0x90, 4, 0, 0], ack [], ack [1, 2, 3, 4],
                ack [], ack [0x90, 63, 0, 0], ack [], ack [5, 6, 7, 8, 9, 10],
                ack [], ack [0x80, 5, 0, 0]])))) = [(10, 10), (4, 4), (63, 6)]"
proof -
  let ?w = "world0 [ack [], ack [0x90, 10, 0, 0], ack [], ack [0x80, 1, 0, 0, 0, 20, 0, 0, 0, 0],
                ack [], ack [0x90, 4, 0, 0], ack [], ack [1, 2, 3, 4],
                ack [], ack [0x90, 63, 0, 0], ack [], ack [5, 6, 7, 8, 9, 10],
                ack [], ack [0x80, 5, 0, 0]]"
  let ?res = "cr50_tis_i2c_recv tis_h chip0 (replicate 32 0) 32 ?w"
  have run: "?res = ((fst (fst ?res), snd (fst ?res)), snd ?res)"
    by simp
  have 2: "(32::nat) < 2 ^ 31" by simp
  have 3: "TPM_STS tis_h (locality chip0) \<noteq> TPM_DATA_FIFO tis_h (locality chip0)"
    by (simp add: tis_h_def chip0_def)
  show ?thesis
    using recv_bytes_read [OF run 2 3]
    by (simp add: recv_run_defs run_defs)
qed

text \<open>
  C1 as stated fails when the first burst count is larger than the declared length: the
  chip announces 63 bytes, the header in them declares 10, and the driver reads 63 bytes
  from the data FIFO and returns 63.
\<close>

theorem recv_bytes_read_counterexample:
  "fst (fst (cr50_tis_i2c_recv tis_h chip0 (replicate 64 0) 64
       (world0 [ack [], ack [0x90, 63, 0, 0], ack [], ack [0x80, 1, 0, 0, 0, 10, 0, 0, 0, 0],
                ack [], ack [0x80, 63, 0, 0]]))) = 63 \<and>
   read_be32 (drop (TPM_RSP_SIZE_BYTE tis_h)
     (snd (fst (cr50_tis_i2c_recv tis_h chip0 (replicate 64 0) 64
       (world0 [ack [], ack [0x90, 63, 0, 0], ack [], ack [0x80, 1, 0, 0, 0, 10, 0, 0, 0, 0],
                ack [], ack [0x80, 63, 0, 0]]))))) = 10 \<and>
   read_log (TPM_DATA_FIFO tis_h 0) [] 0
     (trace (snd (cr50_tis_i2c_recv tis_h chip0 (replicate 64 0) 64
       (world0 [ack [], ack [0x90, 63, 0, 0], ack [], ack [0x80, 1, 0, 0, 0, 10, 0, 0, 0, 0],
                ack [], ack [0x80, 63, 0, 0]])))) = [(63, 63)]"
  by (simp add: recv_run_defs run_defs)

section \<open>Send on a bus that does not answer\<close>

lemma status_dead:
  assumes "\<not> r_ok (replies s (pos s))" and "dev_addr (g_tpm_dev s) \<noteq> 0"
  shows "cr50_tis_i2c_status K chip s =
           (0, s\<lparr>clock := clock s + r_dur (replies s (pos s)), pos := pos s + 1,
                  trace := trace s @
                    [I2C_write [TPM_STS K (locality chip)] False,
                     Printk ''iic_tpm_read: Address write failed'',
                     Printk ''cr50_tis_i2c_status: Failed to read status'']\<rparr>)"
  using assms
  by (simp add: cr50_tis_i2c_status_def iic_tpm_read_def i2c_write_raw_def printk_def Let_def)

lemma ready_dead:
  assumes "\<not> r_ok (replies s (pos s))" and "dev_addr (g_tpm_dev s) \<noteq> 0"
  shows "pos (cr50_tis_i2c_ready K chip s) = pos s + 1"
    and "replies (cr50_tis_i2c_ready K chip s) = replies s"
    and "clock (cr50_tis_i2c_ready K chip s) =
           clock s + r_dur (replies s (pos s)) + CR50_TIMEOUT_SHORT_MS"
    and "trace (cr50_tis_i2c_ready K chip s) =
           trace s @
             [I2C_write [TPM_STS K (locality chip), TPM_STS_COMMAND_READY K, 0, 0, 0] False,
              Printk ''iic_tpm_write: Error writing to TPM'',
              Mdelay CR50_TIMEOUT_SHORT_MS]"
    and "dev_addr (g_tpm_dev (cr50_tis_i2c_ready K chip s)) = dev_addr (g_tpm_dev s)"
  using assms
  by (simp_all add: cr50_tis_i2c_ready_def iic_tpm_write_def i2c_write_raw_def printk_def
        mdelay_def Let_def CR50_MAX_BUFSIZE_def)

lemma ready_loop_dead:
  "\<forall>n\<ge>pos s. \<not> r_ok (replies s n) \<Longrightarrow> dev_addr (g_tpm_dev s) \<noteq> 0 \<Longrightarrow>
     \<exists>k s'. cr50_tis_i2c_send_ready_loop K chip sw s = (False, s') \<and>
       trace s' = trace s @
         concat (replicate k (dead_round (TPM_STS K (locality chip)) (TPM_STS_COMMAND_READY K)))
         @ dead_end (TPM_STS K (locality chip)) \<and>
       pos s' = pos s + 2 * k + 1 \<and>
       clock s' = clock s + 2 * k + (\<Sum>n = pos s..<pos s'. r_dur (replies s n)) \<and>
       sw \<le> clock s'"
proof (induction K chip sw s rule: cr50_tis_i2c_send_ready_loop.induct)
  case (1 K chip sw s)
  let ?a = "TPM_STS K (locality chip)" and ?rdy = "TPM_STS_COMMAND_READY K"
  let ?s1 = "s\<lparr>clock := clock s + r_dur (replies s (pos s)), pos := pos s + 1,
                trace := trace s @
                  [I2C_write [?a] False, Printk ''iic_tpm_read: Address write failed'',
                   Printk ''cr50_tis_i2c_status: Failed to read status'']\<rparr>"
  have f0: "\<not> r_ok (replies s (pos s))" using "1.prems"(1) by simp
  have st: "cr50_tis_i2c_status K chip s = (0, ?s1)"
    by (rule status_dead [OF f0 "1.prems"(2)])
  note simps = cr50_tis_i2c_send_ready_loop.simps [of K chip sw s]
  show ?case
  proof (cases "stopwatch_expired sw ?s1")
    case True
    then have "cr50_tis_i2c_send_ready_loop K chip sw s =
                 (False, printk ''cr50_tis_i2c_send: Command ready timeout'' ?s1)"
      using st by (simp add: simps)
    moreover have "sw \<le> clock ?s1" using True by (simp add: stopwatch_expired_def)
    ultimately show ?thesis
      by (intro exI [of _ 0] exI [of _ "printk ''cr50_tis_i2c_send: Command ready timeout'' ?s1"])
         (simp add: printk_def dead_end_def)
  next
    case False
    have f1: "\<not> r_ok (replies ?s1 (pos ?s1))" using "1.prems"(1) by simp
    have a1: "dev_addr (g_tpm_dev ?s1) \<noteq> 0" using "1.prems"(2) by simp
    let ?s2 = "cr50_tis_i2c_ready K chip ?s1"
    note rd = ready_dead [OF f1 a1, of K chip]
    have p2: "pos ?s2 = pos s + 2" "replies ?s2 = replies s"
      "clock ?s2 = clock s + r_dur (replies s (pos s)) + r_dur (replies s (pos s + 1)) + 2"
      "trace ?s2 = trace s @ dead_round ?a ?rdy"
      using rd by (simp_all add: dead_round_def CR50_TIMEOUT_SHORT_MS_def)
    have d2: "\<forall>n\<ge>pos ?s2. \<not> r_ok (replies ?s2 n)"
      using "1.prems"(1) p2 by simp
    have a2: "dev_addr (g_tpm_dev ?s2) \<noteq> 0"
      using rd(5) "1.prems"(2) by simp
    have z: "(0 :: byte) AND ?rdy = 0" by simp
    have nz: "\<not> (0 :: byte) AND ?rdy \<noteq> 0" by simp
    from "1.IH" [OF st [symmetric] nz False d2 a2]
    obtain k s' where ih: "cr50_tis_i2c_send_ready_loop K chip sw ?s2 = (False, s')"
      "trace s' = trace ?s2 @ concat (replicate k (dead_round ?a ?rdy)) @ dead_end ?a"
      "pos s' = pos ?s2 + 2 * k + 1"
      "clock s' = clock ?s2 + 2 * k + (\<Sum>n = pos ?s2..<pos s'. r_dur (replies ?s2 n))"
      "sw \<le> clock s'"
      by blast
    have run: "cr50_tis_i2c_send_ready_loop K chip sw s = (False, s')"
      using st False ih(1) by (simp add: simps)
    have "{pos s..<pos s'} = {pos s, pos s + 1} \<union> {pos s + 2..<pos s'}"
      using ih(3) p2(1) by auto
    then have "(\<Sum>n = pos s..<pos s'. r_dur (replies s n)) =
            r_dur (replies s (pos s)) + r_dur (replies s (pos s + 1)) +
            (\<Sum>n = pos s + 2..<pos s'. r_dur (replies s n))"
      by simp
    with ih p2 run show ?thesis
      by (intro exI [of _ "Suc k"] exI [of _ s']) simp
  qed
qed

text \<open>
  C10. When the read of the status register fails, cr50_tis_i2c_status logs it and
  returns 0. So on a bus where every transfer fails, cr50_tis_i2c_send does not stop at
  the first failure: round after round it takes the failed status read for a clear ready
  bit and writes the ready request, until the stopwatch of 2000 ms has expired, and
  returns -1 with the command-ready timeout message.
\<close>

theorem status_failure_reads_not_ready:
  "(iic_tpm_read (TPM_STS K (locality chip)) 4 s0 = (None, s1) \<longrightarrow>
      cr50_tis_i2c_status K chip s0 =
        (0, printk ''cr50_tis_i2c_status: Failed to read status'' s1)) \<and>
   ((\<forall>n\<ge>pos s. \<not> r_ok (replies s n)) \<and> dev_addr (g_tpm_dev s) \<noteq> 0 \<longrightarrow>
      (\<exists>k s'. cr50_tis_i2c_send K chip buf len s = Some (-1, s') \<and>
         events_since s s' =
           concat (replicate k
             (dead_round (TPM_STS K (locality chip)) (TPM_STS_COMMAND_READY K))) @
           dead_end (TPM_STS K (locality chip)) \<and>
         clock s' = clock s + 2 * k + (\<Sum>n = pos s..<pos s'. r_dur (replies s n)) \<and>
         clock s + 2000 \<le> clock s'))"
proof (intro conjI impI)
  assume "iic_tpm_read (TPM_STS K (locality chip)) 4 s0 = (None, s1)"
  then show "cr50_tis_i2c_status K chip s0 =
        (0, printk ''cr50_tis_i2c_status: Failed to read status'' s1)"
    by (simp add: cr50_tis_i2c_status_def)
next
  assume "(\<forall>n\<ge>pos s. \<not> r_ok (replies s n)) \<and> dev_addr (g_tpm_dev s) \<noteq> 0"
  then have d: "\<forall>n\<ge>pos s. \<not> r_ok (replies s n)" and a: "dev_addr (g_tpm_dev s) \<noteq> 0"
    by simp_all
  from ready_loop_dead [OF d a, of K chip "stopwatch_init_msecs_expire CR50_TIMEOUT_LONG_MS s"]
  obtain k s' where
    lp: "cr50_tis_i2c_send_ready_loop K chip
           (stopwatch_init_msecs_expire CR50_TIMEOUT_LONG_MS s) s = (False, s')"
      "trace s' = trace s @
         concat (replicate k (dead_round (TPM_STS K (locality chip)) (TPM_STS_COMMAND_READY K)))
         @ dead_end (TPM_STS K (locality chip))"
      "clock s' = clock s + 2 * k + (\<Sum>n = pos s..<pos s'. r_dur (replies s n))"
      "stopwatch_init_msecs_expire CR50_TIMEOUT_LONG_MS s \<le> clock s'"
    by blast
  show "\<exists>k s'. cr50_tis_i2c_send K chip buf len s = Some (-1, s') \<and>
         events_since s s' =
           concat (replicate k
             (dead_round (TPM_STS K (locality chip)) (TPM_STS_COMMAND_READY K))) @
           dead_end (TPM_STS K (locality chip)) \<and>
         clock s' = clock s + 2 * k + (\<Sum>n = pos s..<pos s'. r_dur (replies s n)) \<and>
         clock s + 2000 \<le> clock s'"
    using lp
    by (intro exI [of _ k] exI [of _ s'])
       (simp add: cr50_tis_i2c_send_def events_since_def stopwatch_init_msecs_expire_def
          CR50_TIMEOUT_LONG_MS_def)
qed

theorem status_failure_reads_not_ready_witness:
  "cr50_tis_i2c_status tis_h chip0 (world0 []) =
     (0, (world0 [])\<lparr>pos := 1,
           trace := [I2C_write [1] False, Printk ''iic_tpm_read: Address write failed'',
                     Printk ''cr50_tis_i2c_status: Failed to read status'']\<rparr>) \<and>
   cr50_tis_i2c_send tis_h chip0 [1, 2, 3] 3
       (world0 [Reply False [] 1500, Reply False [] 600]) =
     Some (-1, (world0 [Reply False [] 1500, Reply False [] 600])
       \<lparr>g_tpm_dev := \<lparr>dev_bus = 0, dev_addr = 0x50,
                       dev_buf = [1, 0x40, 0, 0, 0] @ replicate 59 0\<rparr>,
        clock := 2102, pos := 3,
        trace := dead_round 1 0x40 @ dead_end 1\<rparr>)"
proof -
  let ?w = "world0 [Reply False [] 1500, Reply False [] 600]"
  have d: "\<forall>n\<ge>pos ?w. \<not> r_ok (replies ?w n)"
    by (simp add: world0_def script_def nth_Cons')
  have a: "dev_addr (g_tpm_dev ?w) \<noteq> 0"
    by (simp add: world0_def)
  have rd: "iic_tpm_read (TPM_STS tis_h (locality chip0)) 4 (world0 []) =
              (None, snd (iic_tpm_read (TPM_STS tis_h (locality chip0)) 4 (world0 [])))"
    by (simp add: run_defs)
  show ?thesis
    using status_failure_reads_not_ready [of tis_h chip0 "world0 []"
        "snd (iic_tpm_read (TPM_STS tis_h (locality chip0)) 4 (world0 []))" ?w "[1, 2, 3]" 3]
      d a rd
    by (simp add: cr50_tis_i2c_send_def cr50_tis_i2c_send_ready_loop.simps
          cr50_tis_i2c_status_def cr50_tis_i2c_ready_def run_defs dead_round_def dead_end_def)
qed

section \<open>What was written to a register\<close>

lemma chunks_ok_sum: "chunks_ok rem cs \<Longrightarrow> sum_list (map snd cs) = rem"
  by (induction rem cs rule: chunks_ok.induct) auto

lemma written_to_append: "written_to a (ev1 @ ev2) = written_to a ev1 @ written_to a ev2"
  by (induction a ev1 rule: written_to.induct) auto

lemma logs_Nil [simp]: "logs a [] []"
  by (auto simp: logs_def)

lemma logs_append: "logs a ev1 cs1 \<Longrightarrow> logs a ev2 cs2 \<Longrightarrow> logs a (ev1 @ ev2) (cs1 @ cs2)"
  unfolding logs_def
proof (intro allI)
  fix b rest
  assume 1: "\<forall>b rest. \<exists>b'. chunk_log a b (ev1 @ rest) = cs1 @ chunk_log a b' rest"
    and 2: "\<forall>b rest. \<exists>b'. chunk_log a b (ev2 @ rest) = cs2 @ chunk_log a b' rest"
  from 1 obtain b1 where "chunk_log a b (ev1 @ ev2 @ rest) = cs1 @ chunk_log a b1 (ev2 @ rest)"
    by blast
  moreover from 2 obtain b2 where "chunk_log a b1 (ev2 @ rest) = cs2 @ chunk_log a b2 rest"
    by blast
  ultimately show "\<exists>b'. chunk_log a b ((ev1 @ ev2) @ rest) = (cs1 @ cs2) @ chunk_log a b' rest"
    by auto
qed

lemma logs_append_Nil: "logs a ev1 [] \<Longrightarrow> logs a ev2 [] \<Longrightarrow> logs a (ev1 @ ev2) []"
  using logs_append [of a ev1 "[]" ev2 "[]"] by simp

lemma logs_single [simp]:
  "logs a [Printk m] []" "logs a [Mdelay n] []" "logs a [Printk m, Mdelay n] []"
  by (auto simp: logs_def)

lemma read_events_logs: "read_events a' n x ev \<Longrightarrow> a' \<noteq> a \<Longrightarrow> logs a ev []"
  by (auto simp: read_events_def logs_def split: option.splits)

lemma write_events_logs: "write_events a' d ok ev \<Longrightarrow> a' \<noteq> a \<Longrightarrow> logs a ev []"
  by (auto simp: write_events_def logs_def split: if_splits)

lemma read_events_written: "read_events a' n x ev \<Longrightarrow> written_to a ev = []"
  by (auto simp: read_events_def split: option.splits)

lemma write_events_written:
  "write_events a' d ok ev \<Longrightarrow> written_to a ev = (if ok \<and> a' = a then d else [])"
  by (auto simp: write_events_def split: if_splits)

lemma wait_events_logs: "wait_events a' msk r ev \<Longrightarrow> a' \<noteq> a \<Longrightarrow> logs a ev []"
proof (induction rule: wait_events.induct)
  case wait_timeout
  show ?case by simp
next
  case (wait_found buf ev)
  then show ?case by (simp add: read_events_logs)
next
  case (wait_read_failed ev r d)
  then show ?case
    by (intro logs_append_Nil) (simp_all add: read_events_logs)
next
  case (wait_not_ok buf ev r d)
  then show ?case
    by (intro logs_append_Nil) (simp_all add: read_events_logs)
qed

lemma wait_events_burst:
  "wait_events a' msk r ev \<Longrightarrow> r = Some (st, bc) \<Longrightarrow> a' \<noteq> a \<Longrightarrow>
     chunk_log a b (ev @ rest) = chunk_log a bc rest"
proof (induction arbitrary: b rule: wait_events.induct)
  case wait_timeout
  then show ?case by simp
next
  case (wait_found buf ev)
  then show ?case by (auto simp: read_events_def)
next
  case (wait_read_failed ev r d)
  from read_events_logs [OF wait_read_failed(1) wait_read_failed(5)]
  obtain b1 where "chunk_log a b (ev @ ([Printk ''cr50_wait_burst_status: Read failed'',
        Mdelay CR50_TIMEOUT_SHORT_MS] @ d) @ rest) =
      chunk_log a b1 (([Printk ''cr50_wait_burst_status: Read failed'',
        Mdelay CR50_TIMEOUT_SHORT_MS] @ d) @ rest)"
    unfolding logs_def by (metis append_Nil)
  with wait_read_failed(3) [OF wait_read_failed(4,5), of b1] show ?case
    by simp
next
  case (wait_not_ok buf ev r d)
  from read_events_logs [OF wait_not_ok(1) wait_not_ok(6)]
  obtain b1 where "chunk_log a b (ev @ ([Mdelay CR50_TIMEOUT_SHORT_MS] @ d) @ rest) =
      chunk_log a b1 (([Mdelay CR50_TIMEOUT_SHORT_MS] @ d) @ rest)"
    unfolding logs_def by (metis append_Nil)
  with wait_not_ok(4) [OF wait_not_ok(5,6), of b1] show ?case
    by simp
qed

lemma wait_events_written: "wait_events a' msk r ev \<Longrightarrow> written_to a ev = []"
  by (induction rule: wait_events.induct)
     (simp_all add: written_to_append read_events_written)

lemma status_events_logs:
  assumes "status_events a' st ev" and "a' \<noteq> a"
  shows "logs a ev []"
  using assms(1) unfolding status_events_def
proof (elim disjE exE conjE)
  fix buf
  assume "read_events a' 4 (Some buf) ev"
  then show ?thesis by (rule read_events_logs) (rule assms(2))
next
  fix ev0
  assume rd: "read_events a' 4 None ev0"
    and ev: "ev = ev0 @ [Printk ''cr50_tis_i2c_status: Failed to read status'']"
  have "logs a ev0 []" by (rule read_events_logs [OF rd assms(2)])
  then show ?thesis unfolding ev by (rule logs_append_Nil) simp
qed

lemma status_events_written: "status_events a' st ev \<Longrightarrow> written_to a ev = []"
  unfolding status_events_def
  by (auto simp: written_to_append read_events_written)

lemma ready_write_events_logs:
  assumes "ready_write_events a' rdy ev" and "a' \<noteq> a"
  shows "logs a ev []"
proof -
  from assms(1) obtain ok evw where w: "write_events a' [rdy, 0, 0, 0] ok evw"
    and ev: "ev = evw @ [Mdelay CR50_TIMEOUT_SHORT_MS]"
    unfolding ready_write_events_def by blast
  have "logs a evw []" by (rule write_events_logs [OF w assms(2)])
  then show ?thesis unfolding ev by (rule logs_append_Nil) simp
qed

lemma ready_write_events_written:
  "ready_write_events a' rdy ev \<Longrightarrow> a' \<noteq> a \<Longrightarrow> written_to a ev = []"
  unfolding ready_write_events_def
  by (auto simp: written_to_append write_events_written)

lemma ready_events_logs: "ready_events a' rdy r ev \<Longrightarrow> a' \<noteq> a \<Longrightarrow> logs a ev []"
proof (induction rule: ready_events.induct)
  case (ready_found st ev)
  then show ?case by (simp add: status_events_logs)
next
  case (ready_timeout st ev)
  then show ?case by (intro logs_append_Nil) (simp_all add: status_events_logs)
next
  case (ready_retry st ev evw r d)
  then show ?case
    by (intro logs_append_Nil) (simp_all add: status_events_logs ready_write_events_logs)
qed

lemma ready_events_written:
  "ready_events a' rdy r ev \<Longrightarrow> a' \<noteq> a \<Longrightarrow> written_to a ev = []"
  by (induction rule: ready_events.induct)
     (simp_all add: written_to_append status_events_written ready_write_events_written)

lemma chunks_begin_sum: "chunks_begin rem cs \<Longrightarrow> sum_list (map snd cs) \<le> rem"
  by (induction rem cs rule: chunks_begin.induct) auto

lemma chunks_begin_ok:
  "chunks_begin rem cs \<Longrightarrow> sum_list (map snd cs) = rem \<Longrightarrow> chunks_ok rem cs"
proof (induction rem cs rule: chunks_begin.induct)
  case (1 rem)
  then show ?case by simp
next
  case (2 rem b c cs)
  then show ?case by auto
qed

lemma quiet_refl [simp]: "quiet a s s"
  by (simp add: quiet_def)

lemma quiet_trans: "quiet a s s1 \<Longrightarrow> quiet a s1 s2 \<Longrightarrow> quiet a s s2"
  unfolding quiet_def
  using events_since_trans [of s s1 s2] evolves_trans [of s s1 s2] logs_append_Nil
  by (auto simp: written_to_append)

lemma quiet_printk [simp]: "quiet a s (printk m s)"
  by (simp add: quiet_def)

lemma quiet_wait:
  assumes "cr50_wait_burst_status K chip msk s = (r, s')" and "TPM_STS K (locality chip) \<noteq> a"
  shows "quiet a s s'"
  unfolding quiet_def
  using wait_run(1) [OF assms(1)] wait_events_logs [OF wait_run(2) [OF assms(1)] assms(2)]
    wait_events_written [OF wait_run(2) [OF assms(1)], of a]
  by simp

lemma quiet_write:
  "iic_tpm_write a' d s = (ok, s') \<Longrightarrow> a' \<noteq> a \<or> \<not> ok \<Longrightarrow> quiet a s s'"
  unfolding quiet_def
  using iic_tpm_write_evolves [of a' d s ok s'] iic_tpm_write_events [of a' d s ok s']
  by (auto simp: write_events_def logs_def split: if_splits)

lemma quiet_status:
  assumes "cr50_tis_i2c_status K chip s = (st, s')" and "TPM_STS K (locality chip) \<noteq> a"
  shows "quiet a s s'"
  unfolding quiet_def
  using status_run(1) [OF assms(1)] status_events_logs [OF status_run(2) [OF assms(1)] assms(2)]
    status_events_written [OF status_run(2) [OF assms(1)], of a]
  by simp

lemma quiet_ready:
  "TPM_STS K (locality chip) \<noteq> a \<Longrightarrow> quiet a s (cr50_tis_i2c_ready K chip s)"
  unfolding quiet_def
  using ready_run(1) [of s K chip] ready_write_events_logs [OF ready_run(2) [of K chip s], of a]
    ready_write_events_written [OF ready_run(2) [of K chip s], of a]
  by simp

lemma quiet_ready_loop:
  assumes "cr50_tis_i2c_send_ready_loop K chip sw s = (r, s')"
    and "TPM_STS K (locality chip) \<noteq> a"
  shows "quiet a s s'"
proof -
  from ready_loop_run [OF assms(1)]
  have e: "evolves s s'"
    and ev: "ready_events (TPM_STS K (locality chip)) (TPM_STS_COMMAND_READY K) r
               (events_since s s')"
    by simp_all
  from e ready_events_logs [OF ev assms(2)] ready_events_written [OF ev assms(2)]
  show ?thesis by (simp add: quiet_def)
qed

lemma quiet_send_out:
  assumes "TPM_STS K (locality chip) \<noteq> a"
  shows "quiet a s (snd (cr50_tis_i2c_send_out K chip s))"
proof -
  obtain st s1 where st: "cr50_tis_i2c_status K chip s = (st, s1)"
    by force
  note q1 = quiet_status [OF st assms]
  show ?thesis
  proof (cases "st AND TPM_STS_COMMAND_READY K \<noteq> 0")
    case True
    with st have "snd (cr50_tis_i2c_send_out K chip s) = cr50_tis_i2c_ready K chip s1"
      by (simp add: cr50_tis_i2c_send_out_def)
    with quiet_trans [OF q1 quiet_ready [OF assms]] show ?thesis by simp
  next
    case False
    with st have "snd (cr50_tis_i2c_send_out K chip s) = s1"
      by (simp add: cr50_tis_i2c_send_out_def)
    with q1 show ?thesis by simp
  qed
qed

section \<open>The loop that writes the command\<close>

lemma take_chunk:
  assumes "i \<le> n"
  shows "take i (drop k xs) @ take (n - i) (drop (k + i) xs) = take n (drop k xs)"
proof -
  have "take (i + (n - i)) (drop k xs) =
          take i (drop k xs) @ take (n - i) (drop i (drop k xs))"
    by (rule take_add)
  moreover have "drop i (drop k xs) = drop (k + i) xs"
    by (simp add: add.commute)
  ultimately show ?thesis using assms by simp
qed

lemmas send_loop_induct =
  cr50_tis_i2c_send_loop.raw_induct [rotated 1, consumes 1, case_names step]

lemma send_loop_run:
  "cr50_tis_i2c_send_loop K chip buf sent len s = Some y \<Longrightarrow>
     evolves s (snd y) \<and>
     (fst (fst y) \<longrightarrow> snd (fst y) = sent + len) \<and>
     (TPM_STS K (locality chip) \<noteq> TPM_DATA_FIFO K (locality chip) \<longrightarrow>
      sent + len \<le> length buf \<longrightarrow>
        (\<exists>cs. chunks_begin len cs \<and>
              logs (TPM_DATA_FIFO K (locality chip)) (events_since s (snd y)) cs \<and>
              written_to (TPM_DATA_FIFO K (locality chip)) (events_since s (snd y)) =
                take (sum_list (map snd cs)) (drop sent buf) \<and>
              (fst (fst y) \<longrightarrow> sum_list (map snd cs) = len)))"
proof (induction K chip buf sent len s y rule: send_loop_induct)
  case (step f K chip buf sent len s y)
  let ?f = "TPM_DATA_FIFO K (locality chip)" and ?a = "TPM_STS K (locality chip)"
  let ?P = "\<lambda>len sent s y cs. chunks_begin len cs \<and> logs ?f (events_since s (snd y)) cs \<and>
              written_to ?f (events_since s (snd y)) =
                take (sum_list (map snd cs)) (drop sent buf) \<and>
              (fst (fst y) \<longrightarrow> sum_list (map snd cs) = len)"
  note body = step.hyps
  have stop: "evolves s (snd y) \<and> (fst (fst y) \<longrightarrow> snd (fst y) = sent + len) \<and>
     (?a \<noteq> ?f \<longrightarrow> sent + len \<le> length buf \<longrightarrow> (\<exists>cs. ?P len sent s y cs))"
    if y: "y = ((False, sent), s')" and q: "?a \<noteq> ?f \<Longrightarrow> quiet ?f s s'" and e: "evolves s s'"
    for s'
  proof -
    have "\<exists>cs. ?P len sent s y cs" if "?a \<noteq> ?f"
      using q [OF that] y by (intro exI [of _ "[]"]) (simp add: quiet_def)
    moreover have "evolves s (snd y)" using y e by simp
    moreover have "\<not> fst (fst y)" using y by simp
    ultimately show ?thesis by blast
  qed
  show ?case
  proof (cases "0 < len")
    case False
    with body have y: "y = ((True, sent), s)" and l0: "len = 0" by simp_all
    have "\<exists>cs. ?P len sent s y cs"
      unfolding y l0 by (intro exI [of _ "[]"]) simp
    moreover have "evolves s (snd y)" using y by simp
    moreover have "snd (fst y) = sent + len" using y l0 by simp
    ultimately show ?thesis by blast
  next
    case lt: True
    obtain x s1 where wt: "cr50_wait_burst_status K chip (TPM_STS_VALID K) s = (x, s1)"
      by force
    note e1 = wait_run(1) [OF wt] and ev1 = wait_run(2) [OF wt]
    show ?thesis
    proof (cases x)
      case None
      with lt wt body have "y = ((False, sent), s1)" by simp
      then show ?thesis
        by (rule stop) (rule quiet_wait [OF wt], assumption, rule e1)
    next
      case (Some p)
      obtain status burstcnt where p: "p = (status, burstcnt)" by (cases p)
      from wait_Some [of K chip "TPM_STS_VALID K" s status burstcnt s1] wt Some p
      have b: "0 < burstcnt" "burstcnt \<le> 63" by (simp_all add: CR50_MAX_BUFSIZE_def)
      show ?thesis
      proof (cases "0 < sent \<and> status AND TPM_STS_DATA_EXPECT K = 0")
        case True
        with lt wt Some p body
        have "y = ((False, sent), printk ''cr50_tis_i2c_send: Data not expected'' s1)"
          by simp
        then show ?thesis
        proof (rule stop)
          assume "?a \<noteq> ?f"
          from quiet_trans [OF quiet_wait [OF wt this] quiet_printk]
          show "quiet ?f s (printk ''cr50_tis_i2c_send: Data not expected'' s1)" .
        next
          show "evolves s (printk ''cr50_tis_i2c_send: Data not expected'' s1)"
            by (rule evolves_trans [OF e1 evolves_printk])
        qed
      next
        case ex: False
        let ?limit = "min (burstcnt - 1) len"
        let ?d = "take ?limit (drop sent buf)"
        obtain ok s2 where w: "iic_tpm_write ?f ?d s1 = (ok, s2)"
          by force
        note e2 = iic_tpm_write_evolves [OF w] and ev2 = iic_tpm_write_events [OF w]
        have e02: "evolves s s2" by (rule evolves_trans [OF e1 e2])
        have body2: "(if \<not> ok
                      then Some ((False, sent), printk ''cr50_tis_i2c_send: Write failed'' s2)
                      else f K chip buf (sent + ?limit) (len - ?limit) s2) = Some y"
          using body lt wt Some p w
          by (auto simp: if_not_P [OF ex] Let_def split: if_splits)
        show ?thesis
        proof (cases ok)
          case False
          with body2
          have "y = ((False, sent), printk ''cr50_tis_i2c_send: Write failed'' s2)"
            by simp
          then show ?thesis
          proof (rule stop)
            assume ne: "?a \<noteq> ?f"
            have "quiet ?f s1 s2"
              by (rule quiet_write [OF w]) (simp add: False)
            from quiet_trans [OF quiet_trans [OF quiet_wait [OF wt ne] this] quiet_printk]
            show "quiet ?f s (printk ''cr50_tis_i2c_send: Write failed'' s2)" .
          next
            show "evolves s (printk ''cr50_tis_i2c_send: Write failed'' s2)"
              by (rule evolves_trans [OF e02 evolves_printk])
          qed
        next
          case True
          with body2
          have run: "f K chip buf (sent + ?limit) (len - ?limit) s2 = Some y"
            by simp
          note ih = step.IH [OF run]
          have e: "evolves s (snd y)"
            using ih by (blast intro: evolves_trans [OF e02])
          have evs: "events_since s (snd y) =
                  events_since s s1 @ events_since s1 s2 @ events_since s2 (snd y)"
            using events_since_trans [OF e02, of "snd y"] events_since_trans [OF e1 e2] ih
            by simp
          have wr: "events_since s1 s2 = [I2C_write (?f # ?d) True, Mdelay CR50_TIMEOUT_SHORT_MS]"
            using ev2 True by (simp add: write_events_def)
          have "snd (fst y) = sent + len" if "fst (fst y)"
            using ih that by simp
          moreover have "\<exists>cs. ?P len sent s y cs"
            if ne: "?a \<noteq> ?f" and le: "sent + len \<le> length buf"
          proof -
            have le': "sent + ?limit + (len - ?limit) \<le> length buf" using le by simp
            from ih ne le' obtain cs where
              cs: "chunks_begin (len - ?limit) cs" "logs ?f (events_since s2 (snd y)) cs"
              and wr2: "written_to ?f (events_since s2 (snd y)) =
                     take (sum_list (map snd cs)) (drop (sent + ?limit) buf)"
              and fin: "fst (fst y) \<longrightarrow> sum_list (map snd cs) = len - ?limit"
              by blast
            have ld: "length ?d = ?limit" using le by simp
            have "logs ?f (events_since s (snd y)) ((burstcnt, ?limit) # cs)"
              unfolding logs_def
            proof (intro allI)
              fix b0 rest
              from cs(2) obtain b' where
                "chunk_log ?f burstcnt (events_since s2 (snd y) @ rest) = cs @ chunk_log ?f b' rest"
                unfolding logs_def by blast
              moreover have "chunk_log ?f b0 (events_since s (snd y) @ rest) =
                  chunk_log ?f burstcnt ((events_since s1 s2 @ events_since s2 (snd y)) @ rest)"
                unfolding evs
                using wait_events_burst [OF ev1 _ ne, of status burstcnt b0
                    "(events_since s1 s2 @ events_since s2 (snd y)) @ rest"] Some p
                by simp
              ultimately show "\<exists>b'. chunk_log ?f b0 (events_since s (snd y) @ rest) =
                  ((burstcnt, ?limit) # cs) @ chunk_log ?f b' rest"
                using wr ld by (intro exI [of _ b']) simp
            qed
            moreover have "chunks_begin len ((burstcnt, ?limit) # cs)"
              using cs(1) lt b by simp
            moreover have "written_to ?f (events_since s (snd y)) =
                take (sum_list (map snd ((burstcnt, ?limit) # cs))) (drop sent buf)"
            proof -
              have "written_to ?f (events_since s (snd y)) =
                      ?d @ take (sum_list (map snd cs)) (drop (sent + ?limit) buf)"
                unfolding evs
                using wait_events_written [OF ev1, of ?f] wr wr2
                by (simp add: written_to_append)
              also have "\<dots> = take (?limit + sum_list (map snd cs)) (drop sent buf)"
                using take_chunk [of ?limit "?limit + sum_list (map snd cs)" sent buf]
                by simp
              finally show ?thesis by simp
            qed
            moreover have "sum_list (map snd ((burstcnt, ?limit) # cs)) = len" if "fst (fst y)"
              using fin that by simp
            ultimately show ?thesis by blast
          qed
          ultimately show ?thesis using e by blast
        qed
      qed
    qed
  qed
qed

section \<open>A burst count of one\<close>

text \<open>
  With the burst count 1 the piece that cr50_tis_i2c_send writes is empty: only the
  address byte goes out, \<open>sent\<close> and \<open>len\<close> stay as they are, and the loop goes round
  again. Against a chip that answers every transfer and keeps announcing the burst count
  1, with the status valid and data expected, the loop never ends.
\<close>

lemma wait_burst_one:
  assumes r: "replies s = (\<lambda>n. ack [st, 1, 0, 0])"
    and v: "st AND msk = msk" and a: "dev_addr (g_tpm_dev s) \<noteq> 0"
  shows "cr50_wait_burst_status K chip msk s =
           (Some (st, 1),
            s\<lparr>clock := clock s + 2, pos := pos s + 2,
               trace := trace s @ [I2C_write [TPM_STS K (locality chip)] True, Mdelay 2,
                                   I2C_read 4 (Some [st, 1, 0, 0])]\<rparr>)"
proof -
  have rd: "iic_tpm_read (TPM_STS K (locality chip)) 4 s =
          (Some [st, 1, 0, 0],
            s\<lparr>clock := clock s + 2, pos := pos s + 2,
               trace := trace s @ [I2C_write [TPM_STS K (locality chip)] True, Mdelay 2,
                                   I2C_read 4 (Some [st, 1, 0, 0])]\<rparr>)"
    using r a
    by (simp add: iic_tpm_read_def i2c_write_raw_def i2c_read_raw_def mdelay_def ack_def
          Let_def CR50_TIMEOUT_SHORT_MS_def)
  have ne: "\<not> stopwatch_expired (stopwatch_init_msecs_expire CR50_TIMEOUT_LONG_MS s) s"
    by (simp add: stopwatch_expired_def stopwatch_init_msecs_expire_def CR50_TIMEOUT_LONG_MS_def)
  show ?thesis
    unfolding cr50_wait_burst_status_def
    using rd ne v
    by (simp add: cr50_wait_burst_status_loop.simps
          [of K chip msk "stopwatch_init_msecs_expire CR50_TIMEOUT_LONG_MS s" s]
          read_le16_def CR50_MAX_BUFSIZE_def)
qed

lemma send_loop_burst_one:
  assumes "cr50_tis_i2c_send_loop K chip buf sent len s = Some y"
  shows "\<not> (0 < len \<and> replies s = (\<lambda>n. ack [st, 1, 0, 0]) \<and>
            st AND TPM_STS_VALID K = TPM_STS_VALID K \<and> st AND TPM_STS_DATA_EXPECT K \<noteq> 0 \<and>
            dev_addr (g_tpm_dev s) \<noteq> 0)"
  using assms
proof (induction K chip buf sent len s y rule: send_loop_induct)
  case (step f K chip buf sent len s y)
  show ?case
  proof
    assume h: "0 < len \<and> replies s = (\<lambda>n. ack [st, 1, 0, 0]) \<and>
            st AND TPM_STS_VALID K = TPM_STS_VALID K \<and> st AND TPM_STS_DATA_EXPECT K \<noteq> 0 \<and>
            dev_addr (g_tpm_dev s) \<noteq> 0"
    let ?s1 = "s\<lparr>clock := clock s + 2, pos := pos s + 2,
               trace := trace s @ [I2C_write [TPM_STS K (locality chip)] True, Mdelay 2,
                                   I2C_read 4 (Some [st, 1, 0, 0])]\<rparr>"
    from h have wt: "cr50_wait_burst_status K chip (TPM_STS_VALID K) s = (Some (st, 1), ?s1)"
      by (intro wait_burst_one) simp_all
    obtain s2 where w: "iic_tpm_write (TPM_DATA_FIFO K (locality chip)) [] ?s1 = (True, s2)"
      and r2: "replies s2 = replies s" and a2: "dev_addr (g_tpm_dev s2) = dev_addr (g_tpm_dev s)"
      using h
      by (simp add: iic_tpm_write_def i2c_write_raw_def mdelay_def ack_def Let_def
            CR50_MAX_BUFSIZE_def)
    from step.hyps h wt w have "f K chip buf sent len s2 = Some y"
      by simp
    from step.IH [OF this] h r2 a2 show False
      by simp
  qed
qed

text \<open>
  Otherwise the loop ends: every burst count that the wait returns was decoded from an
  answer of the bus, and when no answer decodes to the burst count 1, every round that
  does not fail sends at least one byte.
\<close>

lemma wait_loop_burst_from_bus:
  "cr50_wait_burst_status_loop K chip msk sw s = (Some (st, b), s') \<Longrightarrow>
     \<exists>k. b = read_le16 (drop 1 (take 4 (r_data (replies s k) @ replicate 4 0)))"
proof (induction K chip msk sw s rule: cr50_wait_burst_status_loop.induct)
  case (1 K chip msk sw s)
  show ?case
  proof (cases "stopwatch_expired sw s")
    case True
    with "1.prems" show ?thesis
      by (simp add: cr50_wait_burst_status_loop.simps [of K chip msk sw s])
  next
    case False
    obtain x s1 where rd: "iic_tpm_read (TPM_STS K (locality chip)) 4 s = (x, s1)"
      by force
    have r1: "replies s1 = replies s"
      using iic_tpm_read_evolves [OF rd] by (simp add: evolves_def)
    show ?thesis
    proof (cases x)
      case None
      let ?s2 = "mdelay CR50_TIMEOUT_SHORT_MS (printk ''cr50_wait_burst_status: Read failed'' s1)"
      from None False rd "1.prems"
      have run: "cr50_wait_burst_status_loop K chip msk sw ?s2 = (Some (st, b), s')"
        by (simp add: cr50_wait_burst_status_loop.simps [of K chip msk sw s])
      from "1.IH"(1) [OF False rd [symmetric] None run] r1 show ?thesis
        by (simp add: mdelay_def printk_def)
    next
      case (Some buf)
      with rd have rd': "iic_tpm_read (TPM_STS K (locality chip)) 4 s = (Some buf, s1)"
        by simp
      show ?thesis
      proof (cases "burst_status_ok msk buf")
        case True
        with Some False rd "1.prems" have "b = read_le16 (drop 1 buf)"
          by (auto simp: cr50_wait_burst_status_loop.simps [of K chip msk sw s] Let_def
                burst_status_ok_def)
        with iic_tpm_read_Some(4) [OF rd'] show ?thesis
          by blast
      next
        case nok: False
        let ?s2 = "mdelay CR50_TIMEOUT_SHORT_MS s1"
        from Some False nok rd "1.prems"
        have run: "cr50_wait_burst_status_loop K chip msk sw ?s2 = (Some (st, b), s')"
          by (auto simp: cr50_wait_burst_status_loop.simps [of K chip msk sw s] Let_def
                burst_status_ok_def split: if_splits)
        have cond: "\<not> (buf ! 0 AND msk = msk \<and> 0 < read_le16 (drop 1 buf) \<and>
                       read_le16 (drop 1 buf) \<le> CR50_MAX_BUFSIZE)"
          using nok by (simp add: burst_status_ok_def)
        from "1.IH"(2) [OF False rd [symmetric] Some refl refl cond run] r1 show ?thesis
          by (simp add: mdelay_def)
      qed
    qed
  qed
qed

lemma send_loop_returns:
  assumes "\<forall>k. read_le16 (drop 1 (take 4 (r_data (replies s k) @ replicate 4 0))) \<noteq> 1"
  shows "cr50_tis_i2c_send_loop K chip buf sent len s \<noteq> None"
  using assms
proof (induction len arbitrary: sent s rule: less_induct)
  case (less len)
  note simps = cr50_tis_i2c_send_loop.simps [of K chip buf sent len s]
  show ?case
  proof (cases "0 < len")
    case False
    then have "len = 0" by simp
    then show ?thesis
      by (simp add: cr50_tis_i2c_send_loop.simps [of K chip buf sent 0 s])
  next
    case lt: True
    obtain x s1 where wt: "cr50_wait_burst_status K chip (TPM_STS_VALID K) s = (x, s1)"
      by force
    show ?thesis
    proof (cases x)
      case None
      with lt wt show ?thesis by (simp add: simps)
    next
      case (Some p)
      obtain status burstcnt where p: "p = (status, burstcnt)" by (cases p)
      from wt Some p
      have wl: "cr50_wait_burst_status_loop K chip (TPM_STS_VALID K)
                  (stopwatch_init_msecs_expire CR50_TIMEOUT_LONG_MS s) s =
                    (Some (status, burstcnt), s1)"
        by (simp add: cr50_wait_burst_status_def)
      from wait_loop_burst_from_bus [OF wl] less.prems have "burstcnt \<noteq> 1"
        by auto
      moreover from wait_loop_Some [OF wl] have "0 < burstcnt" by simp
      ultimately have b: "2 \<le> burstcnt" by simp
      let ?limit = "min (burstcnt - 1) len"
      have l: "0 < ?limit" using b lt by simp
      obtain ok s2 where
        w: "iic_tpm_write (TPM_DATA_FIFO K (locality chip)) (take ?limit (drop sent buf)) s1 =
              (ok, s2)"
        by force
      have r2: "replies s2 = replies s"
        using wait_run(1) [OF wt] iic_tpm_write_evolves [OF w] by (simp add: evolves_def)
      have "len - ?limit < len" using l lt by simp
      from less.IH [OF this, of s2 "sent + ?limit"] less.prems r2
      have "cr50_tis_i2c_send_loop K chip buf (sent + ?limit) (len - ?limit) s2 \<noteq> None"
        by simp
      with lt wt Some p w show ?thesis
        by (auto simp: simps Let_def)
    qed
  qed
qed

lemma send_returns:
  assumes "\<forall>k. read_le16 (drop 1 (take 4 (r_data (replies s k) @ replicate 4 0))) \<noteq> 1"
  shows "cr50_tis_i2c_send K chip buf len s \<noteq> None"
proof -
  obtain ready s1 where
    rl: "cr50_tis_i2c_send_ready_loop K chip
           (stopwatch_init_msecs_expire CR50_TIMEOUT_LONG_MS s) s = (ready, s1)"
    by force
  have "replies s1 = replies s"
    using ready_loop_run [OF rl] by (simp add: evolves_def)
  with assms send_loop_returns [of s1 K chip buf 0 len]
  have "cr50_tis_i2c_send_loop K chip buf 0 len s1 \<noteq> None"
    by simp
  with rl show ?thesis
    by (auto simp: cr50_tis_i2c_send_def split: prod.splits option.splits)
qed

section \<open>Send\<close>

lemma send_out_fst [simp]: "fst (cr50_tis_i2c_send_out K chip s) = -1"
  by (simp add: cr50_tis_i2c_send_out_def split: prod.splits)

lemma send_tail:
  assumes run: "cr50_tis_i2c_send K chip buf len s = Some (r, s')"
    and rl: "cr50_tis_i2c_send_ready_loop K chip
               (stopwatch_init_msecs_expire CR50_TIMEOUT_LONG_MS s) s = (True, s1)"
    and lp: "cr50_tis_i2c_send_loop K chip buf 0 len s1 = Some ((ok, sent), s2)"
    and ne: "TPM_STS K (locality chip) \<noteq> a"
  shows "quiet a s2 s' \<and> (r = -1 \<or> ok \<and> r = int_of_size_t sent)"
proof -
  let ?v = "TPM_STS_VALID K"
  have out: "quiet a s2 s' \<and> (r = -1 \<or> ok \<and> r = int_of_size_t sent)"
    if "(r, s') = cr50_tis_i2c_send_out K chip x" and "quiet a s2 x" for x
  proof -
    from that(1) have "r = fst (cr50_tis_i2c_send_out K chip x)"
      "s' = snd (cr50_tis_i2c_send_out K chip x)"
      by (simp_all flip: that(1))
    with quiet_trans [OF that(2) quiet_send_out [OF ne, of x]] show ?thesis
      by simp
  qed
  show ?thesis
  proof (cases ok)
    case False
    with run rl lp have "(r, s') = cr50_tis_i2c_send_out K chip s2"
      by (simp add: cr50_tis_i2c_send_def)
    then show ?thesis by (rule out) simp
  next
    case ok: True
    obtain x s3 where wt: "cr50_wait_burst_status K chip ?v s2 = (x, s3)"
      by force
    note q3 = quiet_wait [OF wt ne]
    show ?thesis
    proof (cases x)
      case None
      with run rl lp ok wt have "(r, s') = cr50_tis_i2c_send_out K chip s3"
        by (simp add: cr50_tis_i2c_send_def)
      then show ?thesis by (rule out) (rule q3)
    next
      case (Some p)
      obtain status burstcnt where p: "p = (status, burstcnt)" by (cases p)
      show ?thesis
      proof (cases "status AND TPM_STS_DATA_EXPECT K \<noteq> 0")
        case True
        let ?s4 = "printk ''cr50_tis_i2c_send: Data still expected'' s3"
        from True run rl lp ok wt Some p
        have "(r, s') = cr50_tis_i2c_send_out K chip ?s4"
          by (simp add: cr50_tis_i2c_send_def)
        then show ?thesis by (rule out) (rule quiet_trans [OF q3 quiet_printk])
      next
        case ne0: False
        obtain ok4 s4 where
          go: "iic_tpm_write (TPM_STS K (locality chip)) [TPM_STS_GO K, 0, 0, 0] s3 = (ok4, s4)"
          by force
        have q4: "quiet a s2 s4"
          by (rule quiet_trans [OF q3 quiet_write [OF go]]) (simp add: ne)
        show ?thesis
        proof (cases ok4)
          case False
          let ?s5 = "printk ''cr50_tis_i2c_send: Start command failed'' s4"
          from False ne0 run rl lp ok wt Some p go
          have "(r, s') = cr50_tis_i2c_send_out K chip ?s5"
            by (simp add: cr50_tis_i2c_send_def)
          then show ?thesis by (rule out) (rule quiet_trans [OF q4 quiet_printk])
        next
          case True
          with ne0 run rl lp ok wt Some p go
          have "r = int_of_size_t sent" "s' = s4"
            by (simp_all add: cr50_tis_i2c_send_def)
          with q4 ok show ?thesis by simp
        qed
      qed
    qed
  qed
qed

lemma send_run:
  assumes run: "cr50_tis_i2c_send K chip buf len s = Some (r, s')"
    and len: "len < 2 ^ 31" and le: "len \<le> length buf"
    and ne: "TPM_STS K (locality chip) \<noteq> TPM_DATA_FIFO K (locality chip)"
  shows "\<exists>cs. chunks_begin len cs \<and>
              logs (TPM_DATA_FIFO K (locality chip)) (events_since s s') cs \<and>
              written_to (TPM_DATA_FIFO K (locality chip)) (events_since s s') =
                take (sum_list (map snd cs)) buf \<and>
              (if 0 \<le> r then r = int len \<and> sum_list (map snd cs) = len else r = -1)"
proof -
  let ?f = "TPM_DATA_FIFO K (locality chip)"
  obtain ready s1 where
    rl: "cr50_tis_i2c_send_ready_loop K chip
           (stopwatch_init_msecs_expire CR50_TIMEOUT_LONG_MS s) s = (ready, s1)"
    by force
  note q1 = quiet_ready_loop [OF rl ne]
  show ?thesis
  proof (cases ready)
    case False
    with run rl have "r = -1" "s' = s1"
      by (simp_all add: cr50_tis_i2c_send_def)
    with q1 show ?thesis
      by (intro exI [of _ "[]"]) (simp add: quiet_def)
  next
    case True
    with rl have rl': "cr50_tis_i2c_send_ready_loop K chip
           (stopwatch_init_msecs_expire CR50_TIMEOUT_LONG_MS s) s = (True, s1)"
      by simp
    from run rl True obtain ok sent s2 where
      lp: "cr50_tis_i2c_send_loop K chip buf 0 len s1 = Some ((ok, sent), s2)"
      by (auto simp: cr50_tis_i2c_send_def split: option.splits)
    from send_loop_run [OF lp] ne le
    obtain cs where l: "evolves s1 s2" "ok \<longrightarrow> sent = len" "chunks_begin len cs"
      "logs ?f (events_since s1 s2) cs"
      "written_to ?f (events_since s1 s2) = take (sum_list (map snd cs)) buf"
      "ok \<longrightarrow> sum_list (map snd cs) = len"
      by auto
    from send_tail [OF run rl' lp ne]
    have q2: "quiet ?f s2 s'" and res: "r = -1 \<or> ok \<and> r = int_of_size_t sent"
      by simp_all
    have e1: "evolves s s1" and e2: "evolves s2 s'"
      using q1 q2 by (simp_all add: quiet_def)
    have evs: "events_since s s' = events_since s s1 @ events_since s1 s2 @ events_since s2 s'"
      using events_since_trans [OF e1 evolves_trans [OF l(1) e2]] events_since_trans [OF l(1) e2]
      by simp
    have "logs ?f (events_since s s') ([] @ cs @ [])"
      unfolding evs
      using q1 q2 by (intro logs_append l(4)) (simp_all add: quiet_def)
    moreover have "written_to ?f (events_since s s') = take (sum_list (map snd cs)) buf"
      unfolding evs using q1 q2 l(5) by (simp add: written_to_append quiet_def)
    moreover have "if 0 \<le> r then r = int len \<and> sum_list (map snd cs) = len else r = -1"
      using res l(2,6) len by (auto simp: int_of_size_t_small)
    ultimately show ?thesis using l(3) by (intro exI [of _ cs]) simp
  qed
qed

lemmas send_run_defs =
  cr50_tis_i2c_send_def cr50_tis_i2c_send_ready_loop.simps cr50_tis_i2c_send_loop.simps
  cr50_tis_i2c_send_out_def cr50_tis_i2c_status_def cr50_tis_i2c_ready_def
  cr50_wait_burst_status_def cr50_wait_burst_status_loop.simps read_le16_def
  int_of_size_t_small

text \<open>
  C5, as amended. For a command of \<open>len\<close> bytes, cr50_tis_i2c_send returns whenever no
  answer of the bus decodes to the burst count 1. Whenever it returns, each write to the
  data FIFO followed a status read with a burst count b from 1 to 63 and carried
  min(b - 1, bytes still to send) bytes of the command, in order. When it returns a
  value that is not negative, the sizes add up to \<open>len\<close>, the bytes written are the
  command, and the value returned is \<open>len\<close>; otherwise it returns -1.
\<close>

theorem send_chunks:
  assumes "len < 2 ^ 31" and "len \<le> length buf"
    and "TPM_STS K (locality chip) \<noteq> TPM_DATA_FIFO K (locality chip)"
  shows "case cr50_tis_i2c_send K chip buf len s of
           None \<Rightarrow>
             \<exists>k. read_le16 (drop 1 (take 4 (r_data (replies s k) @ replicate 4 0))) = 1
         | Some (r, s') \<Rightarrow>
             chunks_begin len
               (chunk_log (TPM_DATA_FIFO K (locality chip)) 0 (events_since s s')) \<and>
             written_to (TPM_DATA_FIFO K (locality chip)) (events_since s s') =
               take (sum_list (map snd
                 (chunk_log (TPM_DATA_FIFO K (locality chip)) 0 (events_since s s')))) buf \<and>
             (if 0 \<le> r
              then r = int len \<and>
                   chunks_ok len
                     (chunk_log (TPM_DATA_FIFO K (locality chip)) 0 (events_since s s')) \<and>
                   sum_list (map snd
                     (chunk_log (TPM_DATA_FIFO K (locality chip)) 0 (events_since s s'))) = len \<and>
                   written_to (TPM_DATA_FIFO K (locality chip)) (events_since s s') =
                     take len buf
              else r = -1)"
proof (cases "cr50_tis_i2c_send K chip buf len s")
  case None
  with send_returns [of s K chip buf len] show ?thesis
    by auto
next
  case (Some p)
  obtain r s' where p: "p = (r, s')" by (cases p)
  let ?f = "TPM_DATA_FIFO K (locality chip)"
  from Some p have run: "cr50_tis_i2c_send K chip buf len s = Some (r, s')" by simp
  from send_run [OF run assms]
  obtain cs where cs: "chunks_begin len cs" "logs ?f (events_since s s') cs"
    "written_to ?f (events_since s s') = take (sum_list (map snd cs)) buf"
    "if 0 \<le> r then r = int len \<and> sum_list (map snd cs) = len else r = -1"
    by blast
  from cs(2) obtain b' where
    "chunk_log ?f 0 (events_since s s' @ []) = cs @ chunk_log ?f b' []"
    unfolding logs_def by blast
  then have log: "chunk_log ?f 0 (events_since s s') = cs"
    by simp
  show ?thesis
  proof (cases "0 \<le> r")
    case True
    with cs(4) have "r = int len" "sum_list (map snd cs) = len" by simp_all
    with cs chunks_begin_ok [OF cs(1)] run log True show ?thesis
      by simp
  next
    case False
    with cs run log show ?thesis
      by simp
  qed
qed

theorem send_chunks_witness:
  "map_option (\<lambda>(r, s'). (r, chunk_log (TPM_DATA_FIFO tis_h 0) 0 (trace s'),
                            written_to (TPM_DATA_FIFO tis_h 0) (trace s')))
     (cr50_tis_i2c_send tis_h chip0 [1, 2, 3, 4, 5] 5
        (world0 [ack [], ack [0x40, 0, 0, 0], ack [], ack [0x80, 4, 0, 0], ack [],
                 ack [], ack [0x88, 1, 0, 0], ack [],
                 ack [], ack [0x88, 4, 0, 0], ack [],
                 ack [], ack [0x80, 4, 0, 0], ack []])) =
   Some (5, [(4, 3), (1, 0), (4, 2)], [1, 2, 3, 4, 5])"
proof -
  let ?w = "world0 [ack [], ack [0x40, 0, 0, 0], ack [], ack [0x80, 4, 0, 0], ack [],
                ack [], ack [0x88, 1, 0, 0], ack [],
                ack [], ack [0x88, 4, 0, 0], ack [],
                ack [], ack [0x80, 4, 0, 0], ack []]"
  have 1: "(5::nat) < 2 ^ 31" by simp
  have 2: "5 \<le> length [1, 2, 3, 4, 5 :: byte]" by simp
  have 3: "TPM_STS tis_h (locality chip0) \<noteq> TPM_DATA_FIFO tis_h (locality chip0)"
    by (simp add: tis_h_def chip0_def)
  show ?thesis
    using send_chunks [OF 1 2 3, of ?w]
    by (simp add: send_run_defs run_defs)
qed

text \<open>
  C5 as stated fails for the burst count 1, which cr50_wait_burst_status accepts: the
  chunk is then empty, and against a chip that keeps announcing the burst count 1
  cr50_tis_i2c_send never returns, so that the sizes of its chunks never add up to the
  length of the command.
\<close>

theorem send_chunks_counterexample:
  "burst_status_ok (TPM_STS_VALID tis_h) [0xC8, 1, 0, 0] \<and>
   read_le16 (drop 1 [0xC8, 1, 0, 0]) = 1 \<and>
   min (read_le16 (drop 1 [0xC8, 1, 0, 0]) - 1) 1 = 0 \<and>
   cr50_tis_i2c_send tis_h chip0 [7] 1 world_burst_one = None"
proof -
  let ?s1 = "world_burst_one\<lparr>clock := 2, pos := 2,
               trace := [I2C_write [1] True, Mdelay 2, I2C_read 4 (Some [0xC8, 1, 0, 0])]\<rparr>"
  have rdy: "cr50_tis_i2c_send_ready_loop tis_h chip0
               (stopwatch_init_msecs_expire CR50_TIMEOUT_LONG_MS world_burst_one)
               world_burst_one = (True, ?s1)"
    by (simp add: cr50_tis_i2c_send_ready_loop.simps cr50_tis_i2c_status_def run_defs
          world_burst_one_def)
  have "cr50_tis_i2c_send_loop tis_h chip0 [7] 0 1 ?s1 = None"
  proof (cases "cr50_tis_i2c_send_loop tis_h chip0 [7] 0 1 ?s1")
    case (Some y)
    from send_loop_burst_one [OF Some, of "0xC8"] show ?thesis
      by (simp add: world_burst_one_def world0_def tis_h_def)
  qed simp
  with rdy show ?thesis
    by (simp add: cr50_tis_i2c_send_def burst_status_ok_def read_le16_def tis_h_def
          CR50_MAX_BUFSIZE_def)
qed

lemma ready_loop_timeout_state:
  "cr50_tis_i2c_send_ready_loop K chip sw s = (False, s') \<Longrightarrow>
     \<exists>s0 st s1. evolves s s0 \<and> cr50_tis_i2c_status K chip s0 = (st, s1) \<and>
       st AND TPM_STS_COMMAND_READY K = 0 \<and> stopwatch_expired sw s1 \<and>
       s' = printk ''cr50_tis_i2c_send: Command ready timeout'' s1"
proof (induction K chip sw s rule: cr50_tis_i2c_send_ready_loop.induct)
  case (1 K chip sw s)
  obtain st s1 where st: "cr50_tis_i2c_status K chip s = (st, s1)"
    by force
  note simps = cr50_tis_i2c_send_ready_loop.simps [of K chip sw s]
  from "1.prems" st have nr: "st AND TPM_STS_COMMAND_READY K = 0"
    by (auto simp: simps split: if_splits)
  then have nr': "\<not> st AND TPM_STS_COMMAND_READY K \<noteq> 0" by simp
  show ?case
  proof (cases "stopwatch_expired sw s1")
    case True
    with "1.prems" st nr have "s' = printk ''cr50_tis_i2c_send: Command ready timeout'' s1"
      by (simp add: simps)
    with st nr True show ?thesis
      by (intro exI [of _ s] exI [of _ st] exI [of _ s1]) simp
  next
    case False
    let ?s2 = "cr50_tis_i2c_ready K chip s1"
    from False "1.prems" st nr
    have run: "cr50_tis_i2c_send_ready_loop K chip sw ?s2 = (False, s')"
      by (simp add: simps)
    from "1.IH" [OF st [symmetric] nr' False run]
    obtain s0 st0 s10 where ih: "evolves ?s2 s0" "cr50_tis_i2c_status K chip s0 = (st0, s10)"
      "st0 AND TPM_STS_COMMAND_READY K = 0" "stopwatch_expired sw s10"
      "s' = printk ''cr50_tis_i2c_send: Command ready timeout'' s10"
      by blast
    have "evolves s s0"
      by (rule evolves_trans [OF evolves_trans [OF status_run(1) [OF st] ready_run(1)] ih(1)])
    with ih show ?thesis by blast
  qed
qed

lemma status_nonzero_addr:
  assumes "cr50_tis_i2c_status K chip s = (st, s')" and "st \<noteq> 0"
  shows "dev_addr (g_tpm_dev s') \<noteq> 0"
proof -
  obtain x s1 where rd: "iic_tpm_read (TPM_STS K (locality chip)) 4 s = (x, s1)"
    by force
  with assms obtain buf where x: "x = Some buf" and s': "s' = s1"
    by (cases x) (auto simp: cr50_tis_i2c_status_def)
  from rd x have "iic_tpm_read (TPM_STS K (locality chip)) 4 s = (Some buf, s1)" by simp
  from iic_tpm_read_Some(1) [OF this] iic_tpm_read_evolves [OF this] s' show ?thesis
    by (simp add: evolves_def)
qed

lemma ready_sent:
  assumes "dev_addr (g_tpm_dev s) \<noteq> 0"
  shows "\<exists>ok. events_since s (cr50_tis_i2c_ready K chip s) =
           I2C_write [TPM_STS K (locality chip), TPM_STS_COMMAND_READY K, 0, 0, 0] ok #
             (if ok then [Mdelay CR50_TIMEOUT_SHORT_MS]
              else [Printk ''iic_tpm_write: Error writing to TPM'']) @
             [Mdelay CR50_TIMEOUT_SHORT_MS]"
proof -
  obtain ok s1 where
    w: "iic_tpm_write (TPM_STS K (locality chip)) [TPM_STS_COMMAND_READY K, 0, 0, 0] s = (ok, s1)"
    by force
  have "events_since s s1 =
          I2C_write [TPM_STS K (locality chip), TPM_STS_COMMAND_READY K, 0, 0, 0] ok #
            (if ok then [Mdelay CR50_TIMEOUT_SHORT_MS]
             else [Printk ''iic_tpm_write: Error writing to TPM''])"
    using iic_tpm_write_sent [OF assms _ w] by (simp add: CR50_MAX_BUFSIZE_def)
  moreover have "cr50_tis_i2c_ready K chip s = mdelay CR50_TIMEOUT_SHORT_MS s1"
    using w by (simp add: cr50_tis_i2c_ready_def)
  ultimately show ?thesis
    using events_since_trans [OF iic_tpm_write_evolves [OF w] evolves_mdelay,
        of CR50_TIMEOUT_SHORT_MS]
    by (intro exI [of _ ok]) simp
qed

lemma send_out_cancelled:
  "cancelled K chip s0 (snd (cr50_tis_i2c_send_out K chip s0))"
proof -
  obtain st s1 where st: "cr50_tis_i2c_status K chip s0 = (st, s1)"
    by force
  show ?thesis
  proof (cases "st AND TPM_STS_COMMAND_READY K \<noteq> 0")
    case True
    then have "st \<noteq> 0" by auto
    from ready_sent [OF status_nonzero_addr [OF st this], of K chip] st True show ?thesis
      by (simp add: cancelled_def cr50_tis_i2c_send_out_def)
  next
    case False
    with st show ?thesis
      by (simp add: cancelled_def cr50_tis_i2c_send_out_def)
  qed
qed

text \<open>
  C2. Every cr50_tis_i2c_send that fails ends in one of two ways. From the label \<open>out\<close>:
  the status is read once more, and when the byte read has the command-ready bit, the
  four bytes with the ready bit are written to the status register, the last transfer
  before the return. From the command-ready timeout: the status byte just read had the
  bit clear, and the function returns after its message.
\<close>

theorem send_failure_cancels:
  assumes "cr50_tis_i2c_send K chip buf len s = Some (r, s')"
    and "r < 0" and "len < 2 ^ 31"
  shows "\<exists>s0 st s1.
           evolves s s0 \<and> cr50_tis_i2c_status K chip s0 = (st, s1) \<and>
           (if st AND TPM_STS_COMMAND_READY K \<noteq> 0
            then \<exists>ok. events_since s1 s' =
                   I2C_write [TPM_STS K (locality chip), TPM_STS_COMMAND_READY K, 0, 0, 0] ok #
                     (if ok then [Mdelay CR50_TIMEOUT_SHORT_MS]
                      else [Printk ''iic_tpm_write: Error writing to TPM'']) @
                     [Mdelay CR50_TIMEOUT_SHORT_MS]
            else s' = s1 \<or> s' = printk ''cr50_tis_i2c_send: Command ready timeout'' s1)"
proof -
  let ?v = "TPM_STS_VALID K"
  have goal: "\<exists>s0. evolves s s0 \<and> cancelled K chip s0 s'" 
  proof -
    obtain ready s1 where
      rl: "cr50_tis_i2c_send_ready_loop K chip
             (stopwatch_init_msecs_expire CR50_TIMEOUT_LONG_MS s) s = (ready, s1)"
      by force
    note e1 = ready_loop_run [OF rl, THEN conjunct1]
    show ?thesis
    proof (cases ready)
      case False
      with assms(1) rl have s': "s' = s1" by (simp add: cr50_tis_i2c_send_def)
      from rl False have "cr50_tis_i2c_send_ready_loop K chip
             (stopwatch_init_msecs_expire CR50_TIMEOUT_LONG_MS s) s = (False, s1)"
        by simp
      from ready_loop_timeout_state [OF this]
      obtain s0 st s10 where "evolves s s0" "cr50_tis_i2c_status K chip s0 = (st, s10)"
        "st AND TPM_STS_COMMAND_READY K = 0"
        "s1 = printk ''cr50_tis_i2c_send: Command ready timeout'' s10"
        by blast
      with s' show ?thesis
        by (intro exI [of _ s0]) (simp add: cancelled_def)
    next
      case ready: True
      from assms(1) rl ready obtain ok sent s2 where
        lp: "cr50_tis_i2c_send_loop K chip buf 0 len s1 = Some ((ok, sent), s2)"
        by (auto simp: cr50_tis_i2c_send_def split: option.splits)
      from send_loop_run [OF lp] have l: "evolves s1 s2" "ok \<longrightarrow> sent = len"
        by simp_all
      have e2: "evolves s s2" by (rule evolves_trans [OF e1 l(1)])
      show ?thesis
      proof (cases ok)
        case False
        with assms(1) rl ready lp have "s' = snd (cr50_tis_i2c_send_out K chip s2)"
          by (simp add: cr50_tis_i2c_send_def)
        with e2 send_out_cancelled [of K chip s2] show ?thesis by blast
      next
        case ok: True
        obtain x s3 where wt: "cr50_wait_burst_status K chip ?v s2 = (x, s3)"
          by force
        have e3: "evolves s s3" by (rule evolves_trans [OF e2 wait_run(1) [OF wt]])
        show ?thesis
        proof (cases x)
          case None
          with assms(1) rl ready lp ok wt have "s' = snd (cr50_tis_i2c_send_out K chip s3)"
            by (simp add: cr50_tis_i2c_send_def)
          with e3 send_out_cancelled [of K chip s3] show ?thesis by blast
        next
          case (Some p)
          obtain status burstcnt where p: "p = (status, burstcnt)" by (cases p)
          show ?thesis
          proof (cases "status AND TPM_STS_DATA_EXPECT K \<noteq> 0")
            case True
            let ?s4 = "printk ''cr50_tis_i2c_send: Data still expected'' s3"
            from True assms(1) rl ready lp ok wt Some p
            have "s' = snd (cr50_tis_i2c_send_out K chip ?s4)"
              by (simp add: cr50_tis_i2c_send_def)
            with evolves_trans [OF e3 evolves_printk] send_out_cancelled [of K chip ?s4]
            show ?thesis by blast
          next
            case False
            obtain ok4 s4 where
              go: "iic_tpm_write (TPM_STS K (locality chip)) [TPM_STS_GO K, 0, 0, 0] s3 = (ok4, s4)"
              by force
            have e4: "evolves s s4"
              by (rule evolves_trans [OF e3 iic_tpm_write_evolves [OF go]])
            show ?thesis
            proof (cases ok4)
              case False
              let ?s5 = "printk ''cr50_tis_i2c_send: Start command failed'' s4"
              from False \<open>\<not> status AND TPM_STS_DATA_EXPECT K \<noteq> 0\<close> assms(1) rl ready lp ok
                wt Some p go
              have "s' = snd (cr50_tis_i2c_send_out K chip ?s5)"
                by (simp add: cr50_tis_i2c_send_def)
              with evolves_trans [OF e4 evolves_printk] send_out_cancelled [of K chip ?s5]
              show ?thesis by blast
            next
              case True
              from True \<open>\<not> status AND TPM_STS_DATA_EXPECT K \<noteq> 0\<close> assms(1) rl ready lp ok
                wt Some p go
              have "r = int_of_size_t sent"
                by (simp add: cr50_tis_i2c_send_def)
              with l(2) ok assms(3) have "r = int len"
                by (simp add: int_of_size_t_small)
              with assms(2) show ?thesis by simp
            qed
          qed
        qed
      qed
    qed
  qed
  then show ?thesis
    unfolding cancelled_def by blast
qed

theorem send_failure_cancels_witness:
  "map_option (\<lambda>(r, s'). (r, trace s'))
     (cr50_tis_i2c_send tis_h chip0 [1] 1
        (world0 [ack [], ack [0x40, 0, 0, 0], Reply False [] 2000,
                 ack [], ack [0x40, 0, 0, 0], ack []])) =
   Some (-1,
     [I2C_write [1] True, Mdelay 2, I2C_read 4 (Some [0x40, 0, 0, 0]),
      I2C_write [1] False, Printk ''iic_tpm_read: Address write failed'',
      Printk ''cr50_wait_burst_status: Read failed'', Mdelay 2,
      Printk ''cr50_wait_burst_status: Timeout reading burst and status'',
      I2C_write [1] True, Mdelay 2, I2C_read 4 (Some [0x40, 0, 0, 0]),
      I2C_write [1, 0x40, 0, 0, 0] True, Mdelay 2, Mdelay 2])"
proof -
  let ?w = "world0 [ack [], ack [0x40, 0, 0, 0], Reply False [] 2000,
                 ack [], ack [0x40, 0, 0, 0], ack []]"
  let ?res = "cr50_tis_i2c_send tis_h chip0 [1] 1 ?w"
  have run: "?res = Some (-1, snd (the ?res))"
    by (simp add: send_run_defs run_defs)
  have 2: "(-1::int) < 0" by simp
  have 3: "(1::nat) < 2 ^ 31" by simp
  show ?thesis
    using send_failure_cancels [OF run 2 3]
    by (simp add: send_run_defs run_defs)
qed

end
